theory Spec2Isabelle
  imports Complex_Main
begin

section \<open>Python numbers\<close>

text \<open>
  The notebook computes with Python \<^verbatim>\<open>int\<close> (unbounded) and \<^verbatim>\<open>float\<close> (IEEE 754
  binary64, round to nearest, ties to even).  A float is kept as sign and magnitude: the
  magnitude of a finite float is a rational on the binary64 grid, and the sign is kept
  apart so that \<^verbatim>\<open>-0.0\<close> is a value of its own.
\<close>

datatype error = KeyError | IndexError | ZeroDivisionError | OverflowError

datatype pyfloat = Finite bool rat | Infinity bool | NaN

definition bind_err :: "error + 'a \<Rightarrow> ('a \<Rightarrow> error + 'b) \<Rightarrow> error + 'b" where
  "bind_err r f = (case r of Inl e \<Rightarrow> Inl e | Inr x \<Rightarrow> f x)"

text \<open>\<^verbatim>\<open>int.bit_length()\<close>: the number of binary digits of a natural number.\<close>

fun bit_length :: "nat \<Rightarrow> nat" where
  "bit_length n = (if n = 0 then 0 else Suc (bit_length (n div 2)))"

declare bit_length.simps [simp del]

definition pow2 :: "int \<Rightarrow> rat" where
  "pow2 e = (if 0 \<le> e then 2 ^ nat e else 1 / 2 ^ nat (- e))"

text \<open>The binary exponent of a positive rational: \<open>pow2 e \<le> x < pow2 (e + 1)\<close>.\<close>

definition ilog2 :: "rat \<Rightarrow> int" where
  "ilog2 x = (if 1 \<le> x then int (bit_length (nat \<lfloor>x\<rfloor>)) - 1
              else - int (bit_length (nat (\<lceil>1 / x\<rceil> - 1))))"

definition round_half_even :: "rat \<Rightarrow> int" where
  "round_half_even y =
     (let f = \<lfloor>y\<rfloor>; r = y - of_int f
      in if r < 1 / 2 then f else if 1 / 2 < r then f + 1 else if even f then f else f + 1)"

text \<open>
  The binary64 grid: 53 significant bits above \<open>2^-1022\<close>, the fixed spacing \<open>2^-1074\<close>
  below it (subnormal numbers).  \<open>quantum x\<close> is the spacing of the grid at the magnitude
  \<open>x\<close>, and rounding takes \<open>x\<close> to the nearest multiple of it.
\<close>

definition quantum :: "rat \<Rightarrow> rat" where
  "quantum x = pow2 (max (ilog2 x) (- 1022) - 52)"

definition round_double :: "rat \<Rightarrow> rat" where
  "round_double x =
     (if x = 0 then 0 else of_int (round_half_even (x / quantum x)) * quantum x)"

text \<open>The result of an operation whose exact value has magnitude \<open>x\<close> and sign \<open>s\<close>.\<close>

definition double_of :: "bool \<Rightarrow> rat \<Rightarrow> pyfloat" where
  "double_of s x = (let r = round_double x in if 2 ^ 1024 \<le> r then Infinity s else Finite s r)"

text \<open>Conversion of an int operand to float: \<^verbatim>\<open>OverflowError\<close> beyond the double range.\<close>

definition float_of_int :: "int \<Rightarrow> error + pyfloat" where
  "float_of_int k =
     (case double_of (k < 0) (of_int \<bar>k\<bar>) of
        Infinity s \<Rightarrow> Inl OverflowError
      | f \<Rightarrow> Inr f)"

text \<open>\<^verbatim>\<open>int / int\<close>: true division, correctly rounded.\<close>

definition int_truediv :: "int \<Rightarrow> int \<Rightarrow> error + pyfloat" where
  "int_truediv a b =
     (if b = 0 then Inl ZeroDivisionError
      else case double_of ((a < 0) \<noteq> (b < 0)) (of_int \<bar>a\<bar> / of_int \<bar>b\<bar>) of
             Infinity s \<Rightarrow> Inl OverflowError
           | f \<Rightarrow> Inr f)"

text \<open>\<^verbatim>\<open>float * float\<close> never raises.\<close>

fun float_mul :: "pyfloat \<Rightarrow> pyfloat \<Rightarrow> pyfloat" where
  "float_mul (Finite s x) (Finite t y) = double_of (s \<noteq> t) (x * y)"
| "float_mul (Finite s x) (Infinity t) = (if x = 0 then NaN else Infinity (s \<noteq> t))"
| "float_mul (Infinity s) (Finite t y) = (if y = 0 then NaN else Infinity (s \<noteq> t))"
| "float_mul (Infinity s) (Infinity t) = Infinity (s \<noteq> t)"
| "float_mul NaN _ = NaN"
| "float_mul _ NaN = NaN"

text \<open>\<^verbatim>\<open>float / float\<close> raises \<^verbatim>\<open>ZeroDivisionError\<close> on a zero divisor of either sign.\<close>

fun float_truediv :: "pyfloat \<Rightarrow> pyfloat \<Rightarrow> error + pyfloat" where
  "float_truediv (Finite s x) (Finite t y) =
     (if y = 0 then Inl ZeroDivisionError else Inr (double_of (s \<noteq> t) (x / y)))"
| "float_truediv (Infinity s) (Finite t y) =
     (if y = 0 then Inl ZeroDivisionError else Inr (Infinity (s \<noteq> t)))"
| "float_truediv NaN (Finite t y) =
     (if y = 0 then Inl ZeroDivisionError else Inr NaN)"
| "float_truediv (Finite s x) (Infinity t) = Inr (Finite (s \<noteq> t) 0)"
| "float_truediv (Infinity s) (Infinity t) = Inr NaN"
| "float_truediv NaN (Infinity t) = Inr NaN"
| "float_truediv _ NaN = Inr NaN"

text \<open>
  A number is an int or a float; the distance may be either.  Arithmetic of a float with
  a number converts an int operand first and takes a float operand as it is.
\<close>

datatype number = Int_num int | Float_num pyfloat

fun float_of_number :: "number \<Rightarrow> error + pyfloat" where
  "float_of_number (Int_num k) = float_of_int k"
| "float_of_number (Float_num y) = Inr y"

text \<open>\<^verbatim>\<open>float * number\<close> and \<^verbatim>\<open>float / int\<close>.\<close>

definition float_mul_number :: "pyfloat \<Rightarrow> number \<Rightarrow> error + pyfloat" where
  "float_mul_number x n = bind_err (float_of_number n) (\<lambda>y. Inr (float_mul x y))"

definition float_truediv_int :: "pyfloat \<Rightarrow> int \<Rightarrow> error + pyfloat" where
  "float_truediv_int x k = bind_err (float_of_int k) (\<lambda>y. float_truediv x y)"

text \<open>
  Comparisons of a float with another, as Python's \<^verbatim>\<open>>=\<close>, \<^verbatim>\<open><\<close>, \<^verbatim>\<open><=\<close> and \<^verbatim>\<open>==\<close>
  decide them.
\<close>

fun float_ge0 :: "pyfloat \<Rightarrow> bool" where
  "float_ge0 (Finite s x) = (\<not> s \<or> x = 0)"
| "float_ge0 (Infinity s) = (\<not> s)"
| "float_ge0 NaN = False"

text \<open>\<^verbatim>\<open>math.isfinite\<close>\<close>

fun float_finite :: "pyfloat \<Rightarrow> bool" where
  "float_finite (Finite s x) = True"
| "float_finite _ = False"

fun float_lt :: "pyfloat \<Rightarrow> pyfloat \<Rightarrow> bool" where
  "float_lt (Finite s x) (Finite t y) = ((if s then - x else x) < (if t then - y else y))"
| "float_lt (Finite s x) (Infinity t) = (\<not> t)"
| "float_lt (Infinity s) (Finite t y) = s"
| "float_lt (Infinity s) (Infinity t) = (s \<and> \<not> t)"
| "float_lt NaN _ = False"
| "float_lt _ NaN = False"

fun float_le :: "pyfloat \<Rightarrow> pyfloat \<Rightarrow> bool" where
  "float_le (Finite s x) (Finite t y) = ((if s then - x else x) \<le> (if t then - y else y))"
| "float_le (Finite s x) (Infinity t) = (\<not> t)"
| "float_le (Infinity s) (Finite t y) = s"
| "float_le (Infinity s) (Infinity t) = (s \<or> \<not> t)"
| "float_le NaN _ = False"
| "float_le _ NaN = False"

fun float_eq :: "pyfloat \<Rightarrow> pyfloat \<Rightarrow> bool" where
  "float_eq (Finite s x) (Finite t y) = ((if s then - x else x) = (if t then - y else y))"
| "float_eq (Infinity s) (Infinity t) = (s = t)"
| "float_eq _ _ = False"

text \<open>The float a decimal literal such as \<^verbatim>\<open>48.4\<close> denotes: the double nearest to it.\<close>

definition float_literal :: "rat \<Rightarrow> pyfloat" where
  "float_literal x = double_of False x"

section \<open>Containers\<close>

text \<open>
  A dict is an association list in insertion order (the order \<^verbatim>\<open>items()\<close> and
  \<^verbatim>\<open>keys()\<close> iterate in); subscripting raises on a missing key or index.
\<close>

definition dict_get :: "(string \<times> 'v) list \<Rightarrow> string \<Rightarrow> error + 'v" where
  "dict_get d k = (case map_of d k of None \<Rightarrow> Inl KeyError | Some v \<Rightarrow> Inr v)"

definition list_get :: "'a list \<Rightarrow> int \<Rightarrow> error + 'a" where
  "list_get xs i =
     (if 0 \<le> i \<and> i < int (length xs) then Inr (xs ! nat i)
      else if i < 0 \<and> - int (length xs) \<le> i then Inr (xs ! nat (int (length xs) + i))
      else Inl IndexError)"

section \<open>The emission table\<close>

definition gco2e_per_km :: "(string \<times> int list) list" where
  "gco2e_per_km =
     [(''bicycle'', [0, 6]),
      (''coach bus'', [27, 57]),
      (''gasoline car'', [170, 242]),
      (''electric car'', [48, 110]),
      (''motorbike'', [114, 163]),
      (''tgv'', [4, 21]),
      (''rail UK'', [35, 0]),
      (''rail CH'', [0, 7]),
      (''tram'', [29, 43]),
      (''flight short'', [246, 292]),
      (''flight long'', [253, 285])]"

text \<open>\<^verbatim>\<open>{k: [v[0] / 1000, v[1] / 1000] for k, v in gco2e_per_km.items()}\<close>\<close>

fun per_kg :: "(string \<times> int list) list \<Rightarrow> error + (string \<times> pyfloat list) list" where
  "per_kg [] = Inr []"
| "per_kg ((k, v) # items) =
     bind_err (list_get v 0) (\<lambda>v0.
     bind_err (int_truediv v0 1000) (\<lambda>a.
     bind_err (list_get v 1) (\<lambda>v1.
     bind_err (int_truediv v1 1000) (\<lambda>b.
     bind_err (per_kg items) (\<lambda>rest.
     Inr ((k, [a, b]) # rest))))))"

definition kgco2e_per_km :: "error + (string \<times> pyfloat list) list" where
  "kgco2e_per_km = per_kg gco2e_per_km"

section \<open>The recalculator\<close>

text \<open>\<^verbatim>\<open>kgco2e_per_km[mode][idx] * distance_km\<close>\<close>

definition per_trip ::
  "(string \<times> pyfloat list) list \<Rightarrow> string \<Rightarrow> int \<Rightarrow> number \<Rightarrow> error + pyfloat" where
  "per_trip tbl mode idx distance_km =
     bind_err (dict_get tbl mode) (\<lambda>v.
     bind_err (list_get v idx) (\<lambda>factor.
     float_mul_number factor distance_km))"

text \<open>\<^verbatim>\<open>kgco2e_per_km[mode][idx] * distance_km / car_passangers\<close>\<close>

definition per_trip_shared ::
  "(string \<times> pyfloat list) list \<Rightarrow> string \<Rightarrow> int \<Rightarrow> number \<Rightarrow> int \<Rightarrow> error + pyfloat" where
  "per_trip_shared tbl mode idx distance_km car_passangers =
     bind_err (per_trip tbl mode idx distance_km) (\<lambda>x. float_truediv_int x car_passangers)"

text \<open>
  The first statements of \<^verbatim>\<open>recalc\<close>: the choice of the column and the dict \<^verbatim>\<open>data\<close>,
  its entries evaluated in the order they are written.  The global table is the value the
  table cell left; had that cell raised, its error is passed on.
\<close>

definition recalc_data ::
  "string \<Rightarrow> number \<Rightarrow> int \<Rightarrow> error + (string \<times> pyfloat) list" where
  "recalc_data model distance_km car_passangers =
     bind_err kgco2e_per_km (\<lambda>tbl.
     let idx = (if model = ''OWID'' then 0 else 1) in
     bind_err (per_trip tbl ''bicycle'' idx distance_km) (\<lambda>bicycle.
     bind_err (per_trip tbl ''coach bus'' idx distance_km) (\<lambda>coach_bus.
     bind_err (per_trip_shared tbl ''gasoline car'' idx distance_km car_passangers) (\<lambda>gasoline_car.
     bind_err (per_trip_shared tbl ''electric car'' idx distance_km car_passangers) (\<lambda>electric_car.
     bind_err (per_trip tbl ''motorbike'' idx distance_km) (\<lambda>motorbike.
     bind_err (per_trip tbl ''rail CH'' idx distance_km) (\<lambda>rail_CH.
     Inr [(''bicycle'', bicycle),
          (''coach bus'', coach_bus),
          (''gasoline car'', gasoline_car),
          (''electric car'', electric_car),
          (''motorbike'', motorbike),
          (''rail CH'', rail_CH)])))))))"

text \<open>One entry of \<^verbatim>\<open>data\<close> after a call: \<^verbatim>\<open>data[mode]\<close>.\<close>

definition recalc_result :: "string \<Rightarrow> number \<Rightarrow> int \<Rightarrow> string \<Rightarrow> error + pyfloat" where
  "recalc_result model distance_km car_passangers mode =
     bind_err (recalc_data model distance_km car_passangers) (\<lambda>data. dict_get data mode)"

section \<open>The contract of the recalculator\<close>

text \<open>
  The least magnitude of an int that does not convert to a float: half a grid step above
  the largest double \<open>2^1024 - 2^971\<close>.
\<close>

definition float_int_limit :: int where
  "float_int_limit = 2 ^ 1024 - 2 ^ 970"

text \<open>
  The distances arithmetic with a float accepts: every float, and the ints that convert.
\<close>

fun number_converts :: "number \<Rightarrow> bool" where
  "number_converts (Int_num k) = (\<bar>k\<bar> < float_int_limit)"
| "number_converts (Float_num y) = True"

text \<open>
  \<^verbatim>\<open>distance_km > 0\<close> for a distance that is an int in the float range or a finite float.
\<close>

fun positive_distance :: "number \<Rightarrow> bool" where
  "positive_distance (Int_num k) = (0 < k \<and> k < float_int_limit)"
| "positive_distance (Float_num (Finite s x)) = (\<not> s \<and> 0 < x \<and> x < 2 ^ 1024)"
| "positive_distance (Float_num (Infinity s)) = False"
| "positive_distance (Float_num NaN) = False"

text \<open>\<^verbatim>\<open>isinstance(distance_km, int)\<close>\<close>

fun number_is_int :: "number \<Rightarrow> bool" where
  "number_is_int (Int_num k) = True"
| "number_is_int (Float_num y) = False"

text \<open>\<^verbatim>\<open>sys.float_info.min\<close>, the least normal double \<open>2^-1022\<close>.\<close>

definition float_info_min :: pyfloat where
  "float_info_min = Finite False (pow2 (- 1022))"

text \<open>
  The specification names the two datasets and reads the table as \<open>table[mode][d]\<close>: the
  first factor of a mode under OWID, the second under PSI.
\<close>

definition dataset_index :: "string \<Rightarrow> error + int" where
  "dataset_index d =
     (if d = ''OWID'' then Inr 0 else if d = ''PSI'' then Inr 1 else Inl KeyError)"

definition table_factor :: "string \<Rightarrow> string \<Rightarrow> error + pyfloat" where
  "table_factor mode d =
     bind_err kgco2e_per_km (\<lambda>tbl.
     bind_err (dict_get tbl mode) (\<lambda>v.
     bind_err (dataset_index d) (\<lambda>i. list_get v i)))"

text \<open>
  The formula of the specification for one mode: \<open>table[mode][d] * k\<close>, divided by \<open>p\<close>
  for the two car modes only.
\<close>

definition spec_result :: "string \<Rightarrow> string \<Rightarrow> number \<Rightarrow> int \<Rightarrow> error + pyfloat" where
  "spec_result mode d k p =
     bind_err (table_factor mode d) (\<lambda>f.
     bind_err (float_mul_number f k) (\<lambda>x.
     if mode = ''gasoline car'' \<or> mode = ''electric car'' then float_truediv_int x p
     else Inr x))"

section \<open>Rendering\<close>

text \<open>
  The format specification \<^verbatim>\<open>.1f\<close>: the exact value of the float rounded to one decimal,
  ties to even, the sign kept also when the digits round to zero.
\<close>

fun decimal :: "nat \<Rightarrow> string" where
  "decimal n =
     (if n < 10 then [''0123456789'' ! n]
      else decimal (n div 10) @ [''0123456789'' ! (n mod 10)])"

declare decimal.simps [simp del]

fun format_1f :: "pyfloat \<Rightarrow> string" where
  "format_1f (Finite s x) =
     (let n = nat (round_half_even (x * 10))
      in (if s then ''-'' else []) @ decimal (n div 10) @ ''.'' @ decimal (n mod 10))"
| "format_1f (Infinity s) = (if s then ''-inf'' else ''inf'')"
| "format_1f NaN = ''nan''"

record figure =
  figsize :: "nat \<times> nat"
  bar_labels :: "string list"
  bar_values :: "pyfloat list"
  bar_color :: string
  xlabel :: string
  ylabel :: string
  ylim :: "int \<times> int"
  grid_axis :: string

datatype display_item = Html string | Figure figure

text \<open>One pass of the loop over \<^verbatim>\<open>data.items()\<close> that appends a row to \<^verbatim>\<open>table_html\<close>.\<close>

definition table_row :: "string \<Rightarrow> string \<times> pyfloat \<Rightarrow> string" where
  "table_row table_html item =
     (case item of (k, v) \<Rightarrow>
        table_html @ ''<tr><td style='border: 1px solid black;'>'' @ k @
        ''</td><td style='border: 1px solid black;'>'' @ format_1f v @ ''</td></tr>'')"

text \<open>\<^verbatim>\<open>[data[k] for k in labels]\<close>\<close>

fun values_of :: "(string \<times> pyfloat) list \<Rightarrow> string list \<Rightarrow> error + pyfloat list" where
  "values_of data [] = Inr []"
| "values_of data (k # labels) =
     bind_err (dict_get data k) (\<lambda>v.
     bind_err (values_of data labels) (\<lambda>vs.
     Inr (v # vs)))"

text \<open>
  The output area is explicit state: the items the \<^verbatim>\<open>Output\<close> widget shows.
  \<^verbatim>\<open>output.clear_output()\<close> empties it; \<^verbatim>\<open>display\<close> and \<^verbatim>\<open>plt.show\<close>, called inside
  \<^verbatim>\<open>with output\<close>, append to it.
\<close>

definition clear_output :: "display_item list \<Rightarrow> display_item list" where
  "clear_output output = []"

definition display :: "display_item \<Rightarrow> display_item list \<Rightarrow> display_item list" where
  "display item output = output @ [item]"

text \<open>
  \<^verbatim>\<open>recalc\<close>, from the output area before the call to the area after it.  An error raised
  while \<^verbatim>\<open>data\<close> is computed leaves the area as it was (result \<open>Inl\<close>).
\<close>

definition recalc ::
  "string \<Rightarrow> number \<Rightarrow> int \<Rightarrow> display_item list \<Rightarrow> error + display_item list" where
  "recalc model distance_km car_passangers output =
     bind_err (recalc_data model distance_km car_passangers) (\<lambda>data.
     let table_html = ''<table style='border-collapse: collapse'>'';
         table_html = table_html @
           ''<tr><th style='border: 1px solid black;'>Mode </th>'' @
           ''<th style='border: 1px solid black;'>kg CO2e / passenger</th></tr>'';
         table_html = foldl table_row table_html data;
         table_html = table_html @ ''</table>'';
         output = clear_output output;
         output = display (Html table_html) output;
         labels = map fst data
     in bind_err (values_of data labels) (\<lambda>values.
        Inr (display
          (Figure \<lparr>figsize = (8, 5), bar_labels = labels, bar_values = values,
             bar_color = ''skyblue'', xlabel = ''Mode'', ylabel = ''kg CO2e / person'',
             ylim = (0, 100), grid_axis = ''y''\<rparr>) output)))"

text \<open>The ranges of the three controls that call \<^verbatim>\<open>recalc\<close>.\<close>

definition radio_model :: "string list" where
  "radio_model = [''OWID'', ''PSI'']"

definition slider_distance_km :: "int list" where
  "slider_distance_km = map (\<lambda>i. 10 * i) [0..40]"

definition slider_car_passengers :: "int list" where
  "slider_car_passengers = [1..5]"

section \<open>Facts about rounding\<close>

text \<open>
  The binary exponent brackets a positive magnitude (\<open>ilog2_bounds\<close>).  Rounding moves
  a magnitude by at most half a grid step (\<open>round_double_upper\<close>, \<open>round_double_lower\<close>),
  which for a normal magnitude is a relative error of at most \<open>2^-53\<close>
  (\<open>round_double_rel_error\<close>).  A magnitude below \<open>2^1024 - 2^970\<close> rounds to a finite
  double, and no other does (\<open>round_double_below_limit\<close>, \<open>round_double_above_limit\<close>).
\<close>

lemma pow2_powi: "pow2 e = 2 powi e"
  by (simp add: pow2_def power_int_def inverse_eq_divide power_one_over)

lemma pow2_pos: "0 < pow2 e"
  by (simp add: pow2_powi)

lemma pow2_add: "pow2 (a + b) = pow2 a * pow2 b"
  by (simp add: pow2_powi power_int_add)

lemma pow2_mono: "a \<le> b \<Longrightarrow> pow2 a \<le> pow2 b"
  by (simp add: pow2_powi power_int_increasing)

lemma pow2_less_cancel: "pow2 a < pow2 b \<Longrightarrow> a < b"
  using pow2_mono [of b a] by (cases "a < b") auto

lemma pow2_nat: "pow2 (int n) = 2 ^ n"
  by (simp add: pow2_def)

lemma pow2_neg_nat: "pow2 (- int n) = 1 / 2 ^ n"
  by (simp add: pow2_powi power_int_minus_divide)

lemma pow2_numeral: "pow2 (numeral n) = 2 ^ numeral n"
  by (simp add: pow2_def)

lemma pow2_tiny: "1 / 1000 \<le> q \<Longrightarrow> pow2 (- 1022) \<le> q"
proof -
  assume q: "1 / 1000 \<le> q"
  have "pow2 (- 1022) \<le> pow2 (- 10)" by (intro pow2_mono) simp
  also have "pow2 (- 10) \<le> 1 / 1000" by (simp add: pow2_def)
  finally show ?thesis using q by simp
qed

lemma pow2_small: "1 / 2 ^ 70 \<le> x \<Longrightarrow> pow2 (- 1022) \<le> x"
proof -
  assume x: "1 / 2 ^ 70 \<le> x"
  have "pow2 (- 1022) \<le> pow2 (- 70)" by (intro pow2_mono) simp
  also have "pow2 (- 70) = 1 / 2 ^ 70" using pow2_neg_nat [of 70] by simp
  finally show ?thesis using x by simp
qed

lemma bit_length_bounds: "0 < n \<Longrightarrow> 2 ^ (bit_length n - 1) \<le> n \<and> n < 2 ^ bit_length n"
proof (induction n rule: bit_length.induct)
  case (1 n)
  show ?case
  proof (cases "n div 2 = 0")
    case True
    with "1.prems" have "n = 1" by (simp add: div_eq_0_iff) 
    then show ?thesis by (simp add: bit_length.simps)
  next
    case False
    then have pos: "0 < n div 2" by simp
    from "1.IH" [OF _ pos] "1.prems"
    have ih: "2 ^ (bit_length (n div 2) - 1) \<le> n div 2" "n div 2 < 2 ^ bit_length (n div 2)"
      by auto
    have bl: "bit_length n = Suc (bit_length (n div 2))"
      using "1.prems" by (subst bit_length.simps) simp
    have pos': "0 < bit_length (n div 2)"
      using pos by (subst bit_length.simps) simp
    have "2 ^ (bit_length n - 1) = 2 * 2 ^ (bit_length (n div 2) - 1)"
      using pos' bl by (cases "bit_length (n div 2)") auto
    also have "\<dots> \<le> 2 * (n div 2)" using ih(1) by simp
    also have "\<dots> \<le> n" by simp
    finally have lo: "2 ^ (bit_length n - 1) \<le> n" .
    have "n < 2 * (n div 2) + 2" by presburger
    also have "\<dots> \<le> 2 * 2 ^ bit_length (n div 2)" using ih(2) by simp
    finally have hi: "n < 2 ^ bit_length n" by (simp add: bl)
    from lo hi show ?thesis by simp
  qed
qed

lemma bit_length_pos: "0 < n \<Longrightarrow> 0 < bit_length n"
  by (subst bit_length.simps) simp

lemma ilog2_bounds:
  assumes "0 < x"
  shows "pow2 (ilog2 x) \<le> x" and "x < pow2 (ilog2 x + 1)"
proof -
  have "pow2 (ilog2 x) \<le> x \<and> x < pow2 (ilog2 x + 1)"
  proof (cases "1 \<le> x")
    case True
    define n where "n = nat \<lfloor>x\<rfloor>"
    have npos: "0 < n" using True by (simp add: n_def)
    have fl1: "1 \<le> \<lfloor>x\<rfloor>" using True by simp
    have nfl: "(of_nat n :: rat) = of_int \<lfloor>x\<rfloor>" using fl1 by (simp add: n_def)
    have nx: "of_nat n \<le> x" "x < of_nat n + 1"
      unfolding nfl by linarith+
    have e: "ilog2 x = int (bit_length n) - 1"
      using True by (simp add: ilog2_def n_def)
    have e': "ilog2 x = int (bit_length n - 1)"
      using bit_length_pos [OF npos] e by simp
    from bit_length_bounds [OF npos]
    have b: "2 ^ (bit_length n - 1) \<le> n" "n < 2 ^ bit_length n" by auto
    have "pow2 (ilog2 x) = of_nat (2 ^ (bit_length n - 1))"
      by (simp add: e' pow2_nat)
    also have "\<dots> \<le> of_nat n" using b(1) by (simp only: of_nat_le_iff)
    finally have lo: "pow2 (ilog2 x) \<le> x" using nx(1) by simp
    have "n + 1 \<le> 2 ^ bit_length n" using b(2) by simp
    then have "(of_nat (n + 1) :: rat) \<le> of_nat (2 ^ bit_length n)"
      by (simp only: of_nat_le_iff)
    then have "x < of_nat (2 ^ bit_length n)" using nx(2) by simp
    moreover have "pow2 (ilog2 x + 1) = of_nat (2 ^ bit_length n)"
      using pow2_nat [of "bit_length n"] by (simp add: e)
    ultimately show ?thesis using lo by simp
  next
    case False
    then have x1: "x < 1" by simp
    define m where "m = nat (\<lceil>1 / x\<rceil> - 1)"
    have inv: "1 < 1 / x" using assms x1 by simp
    then have c2: "2 \<le> \<lceil>1 / x\<rceil>" by (simp add: le_ceiling_iff)
    then have mpos: "0 < m" by (simp add: m_def)
    have zpos: "0 \<le> \<lceil>1 / x\<rceil> - 1" using c2 by linarith
    have mz: "(of_nat m :: rat) = of_int (\<lceil>1 / x\<rceil> - 1)"
      unfolding m_def using zpos by (metis of_nat_nat)
    have mx: "of_nat m < 1 / x" "1 / x \<le> of_nat m + 1"
      unfolding mz by (simp_all, linarith+)
    have e: "ilog2 x = - int (bit_length m)"
      using False by (simp add: ilog2_def m_def)
    from bit_length_bounds [OF mpos]
    have b: "2 ^ (bit_length m - 1) \<le> m" "m < 2 ^ bit_length m" by auto
    have "m + 1 \<le> 2 ^ bit_length m" using b(2) by simp
    then have "(of_nat (m + 1) :: rat) \<le> of_nat (2 ^ bit_length m)"
      by (simp only: of_nat_le_iff)
    then have "1 / x \<le> 2 ^ bit_length m" using mx(2) by simp
    then have "1 \<le> 2 ^ bit_length m * x" using assms by (simp add: field_simps)
    then have lo: "pow2 (ilog2 x) \<le> x"
      using assms by (simp add: e pow2_neg_nat field_simps)
    have "(2::rat) ^ (bit_length m - 1) = of_nat (2 ^ (bit_length m - 1))" by simp
    also have "\<dots> \<le> of_nat m" using b(1) by (simp only: of_nat_le_iff)
    also note mx(1)
    finally have "2 ^ (bit_length m - 1) < 1 / x" .
    then have xlt: "x < 1 / 2 ^ (bit_length m - 1)"
      using assms by (simp add: field_simps)
    have "ilog2 x + 1 = - int (bit_length m - 1)"
      using bit_length_pos [OF mpos] e by simp
    then have p: "pow2 (ilog2 x + 1) = 1 / 2 ^ (bit_length m - 1)"
      by (simp only: pow2_neg_nat)
    have "x < pow2 (ilog2 x + 1)" unfolding p by (rule xlt)
    with lo show ?thesis by simp
  qed
  then show "pow2 (ilog2 x) \<le> x" and "x < pow2 (ilog2 x + 1)" by simp_all
qed

lemma rhe_floor: "\<lfloor>y\<rfloor> \<le> round_half_even y" "round_half_even y \<le> \<lfloor>y\<rfloor> + 1"
  by (simp_all add: round_half_even_def Let_def)

lemma rhe_upper: "of_int (round_half_even y) \<le> y + 1 / 2"
  by (auto simp add: round_half_even_def Let_def) linarith+

lemma rhe_lower: "y - 1 / 2 \<le> of_int (round_half_even y)"
  by (auto simp add: round_half_even_def Let_def) linarith+

lemma rhe_ge_int:
  assumes "of_int n \<le> y"
  shows "n \<le> round_half_even y"
proof -
  have "n \<le> \<lfloor>y\<rfloor>" using assms by (simp add: le_floor_iff)
  with rhe_floor(1) [of y] show ?thesis by linarith
qed

lemma rhe_half_up:
  assumes "of_int n - 1 / 2 \<le> y" and "even n"
  shows "n \<le> round_half_even y"
proof -
  have "of_int (n - 1) \<le> y" using assms(1) by simp
  then have f: "n - 1 \<le> \<lfloor>y\<rfloor>" by (simp only: le_floor_iff)
  show ?thesis
  proof (cases "n \<le> \<lfloor>y\<rfloor>")
    case True
    with rhe_floor(1) [of y] show ?thesis by linarith
  next
    case False
    with f have eq: "\<lfloor>y\<rfloor> = n - 1" by linarith
    then have "odd \<lfloor>y\<rfloor>" using assms(2) by simp
    moreover have "\<not> y - of_int \<lfloor>y\<rfloor> < 1 / 2" using assms(1) eq by simp
    ultimately have "round_half_even y = \<lfloor>y\<rfloor> + 1"
      by (simp add: round_half_even_def Let_def)
    then show ?thesis using eq by simp
  qed
qed

lemma quantum_pos: "0 < quantum x"
  by (simp add: quantum_def pow2_pos)

lemma round_double_quantum:
  "x \<noteq> 0 \<Longrightarrow> round_double x = of_int (round_half_even (x / quantum x)) * quantum x"
  by (simp add: round_double_def)

lemma round_double_nonneg: "0 \<le> x \<Longrightarrow> 0 \<le> round_double x"
proof (cases "x = 0")
  case True
  then show ?thesis by (simp add: round_double_def)
next
  case False
  assume "0 \<le> x"
  then have "of_int 0 \<le> x / quantum x" using quantum_pos [of x] by simp
  then have "0 \<le> round_half_even (x / quantum x)" by (rule rhe_ge_int)
  then show ?thesis
    using quantum_pos [of x] False by (simp add: round_double_quantum)
qed

lemma round_double_upper: "0 < x \<Longrightarrow> round_double x \<le> x + quantum x / 2"
proof -
  assume x: "0 < x"
  have "of_int (round_half_even (x / quantum x)) * quantum x \<le> (x / quantum x + 1 / 2) * quantum x"
    using rhe_upper [of "x / quantum x"] quantum_pos [of x] by (simp only: mult_right_mono less_imp_le)
  also have "\<dots> = x + quantum x / 2"
    using quantum_pos [of x] by (simp add: field_simps)
  finally show ?thesis using x by (simp add: round_double_quantum)
qed

lemma round_double_lower: "0 < x \<Longrightarrow> x - quantum x / 2 \<le> round_double x"
proof -
  assume x: "0 < x"
  have "(x / quantum x - 1 / 2) * quantum x \<le> of_int (round_half_even (x / quantum x)) * quantum x"
    using rhe_lower [of "x / quantum x"] quantum_pos [of x] by (simp only: mult_right_mono less_imp_le)
  moreover have "(x / quantum x - 1 / 2) * quantum x = x - quantum x / 2"
    using quantum_pos [of x] by (simp add: field_simps)
  ultimately show ?thesis using x by (simp add: round_double_quantum)
qed

lemma quantum_normal: "pow2 (- 1022) \<le> x \<Longrightarrow> quantum x = pow2 (ilog2 x) / 2 ^ 52"
proof -
  assume n: "pow2 (- 1022) \<le> x"
  then have x: "0 < x" using pow2_pos [of "- 1022"] by simp
  have "pow2 (- 1022) < pow2 (ilog2 x + 1)"
    using n ilog2_bounds(2) [OF x] by simp
  then have "- 1022 < ilog2 x + 1" by (rule pow2_less_cancel)
  then have "max (ilog2 x) (- 1022) = ilog2 x" by simp
  then have "quantum x = pow2 (ilog2 x + (- 52))" by (simp add: quantum_def)
  also have "\<dots> = pow2 (ilog2 x) * pow2 (- 52)" by (rule pow2_add)
  also have "pow2 (- 52) = 1 / 2 ^ 52" using pow2_neg_nat [of 52] by simp
  finally show ?thesis by simp
qed

text \<open>A normal magnitude keeps its binary exponent or moves to the next power of two.\<close>

lemma round_double_ge_pow2:
  assumes "pow2 (- 1022) \<le> x"
  shows "pow2 (ilog2 x) \<le> round_double x"
proof -
  have x: "0 < x" using assms pow2_pos [of "- 1022"] by simp
  have q: "quantum x = pow2 (ilog2 x) / 2 ^ 52" using assms by (rule quantum_normal)
  have "pow2 (ilog2 x) \<le> x" using x by (rule ilog2_bounds)
  then have "2 ^ 52 * quantum x \<le> x" by (simp add: q)
  then have "of_int (2 ^ 52) \<le> x / quantum x"
    using quantum_pos [of x] by (simp add: pos_le_divide_eq)
  then have "2 ^ 52 \<le> round_half_even (x / quantum x)" by (rule rhe_ge_int)
  then have "(of_int (2 ^ 52) :: rat) \<le> of_int (round_half_even (x / quantum x))"
    by (simp only: of_int_le_iff)
  then have "of_int (2 ^ 52) * quantum x \<le> of_int (round_half_even (x / quantum x)) * quantum x"
    using quantum_pos [of x] by (simp only: mult_right_mono less_imp_le)
  then show ?thesis using x by (simp add: round_double_quantum q)
qed

lemma round_double_rel_error:
  assumes "pow2 (- 1022) \<le> x"
  shows "x * (1 - 1 / 2 ^ 53) \<le> round_double x" and "round_double x \<le> x * (1 + 1 / 2 ^ 53)"
proof -
  have x: "0 < x" using assms pow2_pos [of "- 1022"] by simp
  have q: "quantum x = pow2 (ilog2 x) / 2 ^ 52" using assms by (rule quantum_normal)
  have "pow2 (ilog2 x) \<le> x" using x by (rule ilog2_bounds)
  then have h: "quantum x / 2 \<le> x / 2 ^ 53" by (simp add: q)
  show "x * (1 - 1 / 2 ^ 53) \<le> round_double x"
    using round_double_lower [OF x] h by (simp add: algebra_simps)
  show "round_double x \<le> x * (1 + 1 / 2 ^ 53)"
    using round_double_upper [OF x] h by (simp add: algebra_simps)
qed

lemma round_double_pos:
  assumes "1 \<le> x"
  shows "1 \<le> round_double x"
proof -
  have x: "0 < x" using assms by simp
  have "pow2 (- 1022) \<le> pow2 0" by (intro pow2_mono) simp
  also have "pow2 0 = 1" by (simp add: pow2_def)
  finally have n: "pow2 (- 1022) \<le> x" using assms by simp
  have "pow2 0 \<le> x" using assms by (simp add: pow2_def)
  also have "x < pow2 (ilog2 x + 1)" using x by (rule ilog2_bounds)
  finally have "0 < ilog2 x + 1" by (rule pow2_less_cancel)
  then have "pow2 0 \<le> pow2 (ilog2 x)" by (intro pow2_mono) simp
  also have "\<dots> \<le> round_double x" using n by (rule round_double_ge_pow2)
  finally show ?thesis by (simp add: pow2_def)
qed

lemma round_double_below_limit:
  assumes "0 \<le> x" and lim: "x < 2 ^ 1024 - 2 ^ 970"
  shows "round_double x < 2 ^ 1024"
proof (cases "x = 0")
  case True
  then show ?thesis by (simp add: round_double_def)
next
  case False
  with assms have x: "0 < x" by simp
  have "pow2 (ilog2 x) \<le> x" using x by (rule ilog2_bounds)
  also have "x < 2 ^ 1024" using lim by simp
  also have "(2::rat) ^ 1024 = pow2 1024" by (simp only: pow2_numeral)
  finally have "ilog2 x < 1024" by (rule pow2_less_cancel)
  then consider "ilog2 x \<le> 1022" | "ilog2 x = 1023" by linarith
  then show ?thesis
  proof cases
    case 1
    then have "max (ilog2 x) (- 1022) - 52 \<le> 970" by simp
    then have "quantum x \<le> pow2 970" unfolding quantum_def by (rule pow2_mono)
    moreover have "x < pow2 1023"
    proof -
      have "x < pow2 (ilog2 x + 1)" using x by (rule ilog2_bounds)
      also have "\<dots> \<le> pow2 1023" using 1 by (intro pow2_mono) simp
      finally show ?thesis .
    qed
    moreover have "pow2 970 \<le> pow2 1023" by (intro pow2_mono) simp
    moreover have "pow2 1024 = 2 * pow2 1023"
      using pow2_add [of 1 1023] by (simp add: pow2_def)
    moreover have "0 < pow2 970" by (rule pow2_pos)
    ultimately have "x + quantum x / 2 < pow2 1024" by linarith
    with round_double_upper [OF x] have "round_double x < pow2 1024" by linarith
    then show ?thesis by (simp only: pow2_numeral)
  next
    case 2
    then have q: "quantum x = pow2 971" by (simp add: quantum_def)
    have s: "(2::rat) ^ 1024 - 2 ^ 970 = (2 ^ 53 - 1 / 2) * pow2 971"
      by (simp add: pow2_def)
    have "x / pow2 971 < 2 ^ 53 - 1 / 2"
      using lim pow2_pos [of 971] unfolding s by (simp add: pos_divide_less_eq)
    with rhe_upper [of "x / pow2 971"]
    have "of_int (round_half_even (x / pow2 971)) < (2 ^ 53 :: rat)" by linarith
    then have "of_int (round_half_even (x / pow2 971)) * pow2 971 < 2 ^ 53 * pow2 971"
      using pow2_pos [of 971] by (simp only: mult_strict_right_mono)
    moreover have "2 ^ 53 * pow2 971 = (2::rat) ^ 1024" by (simp add: pow2_def)
    ultimately show ?thesis using x by (simp add: round_double_quantum q)
  qed
qed

lemma round_double_below_half_range:
  assumes "0 \<le> x" and lim: "x < 2 ^ 1023"
  shows "round_double x < 2 ^ 1024 - 2 ^ 970"
proof (cases "x = 0")
  case True
  then show ?thesis by (simp add: round_double_def)
next
  case False
  with assms have x: "0 < x" by simp
  have "pow2 (ilog2 x) \<le> x" using x by (rule ilog2_bounds)
  also have "x < pow2 1023" using lim by (simp only: pow2_numeral)
  finally have "ilog2 x < 1023" by (rule pow2_less_cancel)
  then have "max (ilog2 x) (- 1022) - 52 \<le> 970" by simp
  then have "quantum x \<le> pow2 970" unfolding quantum_def by (rule pow2_mono)
  then have "quantum x \<le> 2 ^ 970" by (simp only: pow2_numeral)
  with round_double_upper [OF x] have "round_double x \<le> x + 2 ^ 970 / 2" by linarith
  also have "\<dots> < 2 ^ 1023 + 2 ^ 970 / 2" using lim by simp
  also have "\<dots> < (2::rat) ^ 1024 - 2 ^ 970" by simp
  finally show ?thesis .
qed

lemma round_double_above_limit:
  assumes lim: "2 ^ 1024 - 2 ^ 970 \<le> x"
  shows "2 ^ 1024 \<le> round_double x"
proof -
  have big: "(2::rat) ^ 1023 < 2 ^ 1024 - 2 ^ 970" by simp
  then have x: "0 < x" using lim by simp
  have "pow2 1023 < x" using big lim by (simp only: pow2_numeral)
  also have "x < pow2 (ilog2 x + 1)" using x by (rule ilog2_bounds)
  finally have "1023 < ilog2 x + 1" by (rule pow2_less_cancel)
  then consider "ilog2 x = 1023" | "1024 \<le> ilog2 x" by linarith
  then show ?thesis
  proof cases
    case 1
    then have q: "quantum x = pow2 971" by (simp add: quantum_def)
    have s: "(2::rat) ^ 1024 - 2 ^ 970 = (2 ^ 53 - 1 / 2) * pow2 971"
      by (simp add: pow2_def)
    have "of_int (2 ^ 53) - 1 / 2 \<le> x / pow2 971"
      using lim pow2_pos [of 971] unfolding s by (simp add: pos_le_divide_eq)
    then have "2 ^ 53 \<le> round_half_even (x / pow2 971)" by (rule rhe_half_up) simp
    then have "(of_int (2 ^ 53) :: rat) \<le> of_int (round_half_even (x / pow2 971))"
      by (simp only: of_int_le_iff)
    then have "of_int (2 ^ 53) * pow2 971 \<le> of_int (round_half_even (x / pow2 971)) * pow2 971"
      using pow2_pos [of 971] by (simp only: mult_right_mono less_imp_le)
    moreover have "of_int (2 ^ 53) * pow2 971 = (2::rat) ^ 1024" by (simp add: pow2_def)
    ultimately show ?thesis using x by (simp add: round_double_quantum q)
  next
    case 2
    have "pow2 (- 1022) \<le> pow2 1023" by (intro pow2_mono) simp
    also have "\<dots> \<le> x" using big lim by (simp only: pow2_numeral)
    finally have "pow2 (ilog2 x) \<le> round_double x" by (rule round_double_ge_pow2)
    moreover have "pow2 1024 \<le> pow2 (ilog2 x)" using 2 by (rule pow2_mono)
    ultimately show ?thesis by (simp only: pow2_numeral)
  qed
qed

text \<open>
  Rounding is monotone (\<open>round_double_mono\<close>) and leaves an int of up to 53 bits as it
  is (\<open>round_double_of_int_exact\<close>).
\<close>

lemma rhe_of_int: "round_half_even (of_int n) = n"
  by (simp add: round_half_even_def Let_def)

lemma rhe_le_int:
  assumes "y \<le> of_int n"
  shows "round_half_even y \<le> n"
proof (cases "\<lfloor>y\<rfloor> < n")
  case True
  with rhe_floor(2) [of y] show ?thesis by linarith
next
  case False
  have "\<lfloor>y\<rfloor> \<le> n" using assms by (simp add: floor_le_iff) 
  with False have "\<lfloor>y\<rfloor> = n" by linarith
  then have "of_int n \<le> y" by (metis of_int_floor_le)
  with assms have "y = of_int n" by simp
  then show ?thesis by (simp add: rhe_of_int)
qed

lemma rhe_mono:
  assumes "x \<le> y"
  shows "round_half_even x \<le> round_half_even y"
proof (cases "\<lfloor>x\<rfloor> < \<lfloor>y\<rfloor>")
  case True
  then have "of_int (\<lfloor>x\<rfloor> + 1) \<le> y" by (simp add: le_floor_iff [symmetric] del: of_int_add)
  then have "\<lfloor>x\<rfloor> + 1 \<le> round_half_even y" by (rule rhe_ge_int)
  with rhe_floor(2) [of x] show ?thesis by linarith
next
  case False
  have "\<lfloor>x\<rfloor> \<le> \<lfloor>y\<rfloor>" using assms by (rule floor_mono)
  with False have eq: "\<lfloor>x\<rfloor> = \<lfloor>y\<rfloor>" by linarith
  then show ?thesis
    using assms by (auto simp add: round_half_even_def Let_def)
qed

lemma ilog2_mono:
  assumes "0 < x" and "x \<le> y"
  shows "ilog2 x \<le> ilog2 y"
proof -
  have y: "0 < y" using assms by simp
  have "pow2 (ilog2 x) \<le> x" using assms(1) by (rule ilog2_bounds)
  also have "x \<le> y" by fact
  also have "y < pow2 (ilog2 y + 1)" using y by (rule ilog2_bounds)
  finally have "ilog2 x < ilog2 y + 1" by (rule pow2_less_cancel)
  then show ?thesis by simp
qed

text \<open>Rounding does not cross a point of the grid at the magnitude of its argument.\<close>

lemma round_double_le_grid:
  assumes "x \<noteq> 0" and "x \<le> of_int n * quantum x"
  shows "round_double x \<le> of_int n * quantum x"
proof -
  have "x / quantum x \<le> of_int n"
    using assms(2) quantum_pos [of x] by (simp add: pos_divide_le_eq)
  then have "round_half_even (x / quantum x) \<le> n" by (rule rhe_le_int)
  then have "(of_int (round_half_even (x / quantum x)) :: rat) \<le> of_int n"
    by (simp only: of_int_le_iff)
  then have "of_int (round_half_even (x / quantum x)) * quantum x \<le> of_int n * quantum x"
    using quantum_pos [of x] by (simp only: mult_right_mono less_imp_le)
  then show ?thesis using assms(1) by (simp add: round_double_quantum)
qed

lemma pow2_53: "pow2 (e + 1) = of_int (2 ^ 53) * pow2 (e - 52)"
proof -
  have "e + 1 = 53 + (e - 52)" by simp
  then have "pow2 (e + 1) = pow2 (53 + (e - 52))" by (rule arg_cong)
  also have "\<dots> = pow2 53 * pow2 (e - 52)" by (rule pow2_add)
  also have "pow2 53 = 2 ^ 53" using pow2_nat [of 53] by simp
  finally show ?thesis by simp
qed

lemma round_double_le_next:
  assumes "0 < x"
  shows "round_double x \<le> pow2 (max (ilog2 x) (- 1022) + 1)"
proof -
  have "x < pow2 (ilog2 x + 1)" using assms by (rule ilog2_bounds)
  also have "\<dots> \<le> pow2 (max (ilog2 x) (- 1022) + 1)" by (intro pow2_mono) simp
  finally have "x \<le> of_int (2 ^ 53) * quantum x"
    unfolding quantum_def pow2_53 [symmetric] by simp
  then have "round_double x \<le> of_int (2 ^ 53) * quantum x"
    using assms by (intro round_double_le_grid) simp_all
  then show ?thesis unfolding quantum_def pow2_53 [symmetric] .
qed

lemma round_double_mono:
  assumes "0 \<le> x" and "x \<le> y"
  shows "round_double x \<le> round_double y"
proof (cases "x = 0")
  case True
  have "0 \<le> round_double y" using assms by (intro round_double_nonneg) simp
  then show ?thesis using True by (simp add: round_double_def)
next
  case False
  then have x: "0 < x" using assms(1) by simp
  then have y: "0 < y" using assms(2) by simp
  have l: "ilog2 x \<le> ilog2 y" using x assms(2) by (rule ilog2_mono)
  show ?thesis
  proof (cases "max (ilog2 x) (- 1022) = max (ilog2 y) (- 1022)")
    case True
    then have q: "quantum x = quantum y" by (simp add: quantum_def)
    have "x / quantum y \<le> y / quantum y"
      using assms(2) quantum_pos [of y] by (simp add: divide_right_mono)
    then have "round_half_even (x / quantum y) \<le> round_half_even (y / quantum y)"
      by (rule rhe_mono)
    then have "(of_int (round_half_even (x / quantum y)) :: rat) \<le> of_int (round_half_even (y / quantum y))"
      by (simp only: of_int_le_iff)
    then have "of_int (round_half_even (x / quantum y)) * quantum y
               \<le> of_int (round_half_even (y / quantum y)) * quantum y"
      using quantum_pos [of y] by (simp only: mult_right_mono less_imp_le)
    then show ?thesis using x y by (simp add: round_double_quantum q)
  next
    case False
    with l have lt: "max (ilog2 x) (- 1022) < ilog2 y" and big: "- 1022 < ilog2 y" by linarith+
    have "pow2 (- 1022) \<le> pow2 (ilog2 y)" using big by (intro pow2_mono) simp
    also have "\<dots> \<le> y" using y by (rule ilog2_bounds)
    finally have n: "pow2 (- 1022) \<le> y" .
    have "round_double x \<le> pow2 (max (ilog2 x) (- 1022) + 1)" using x by (rule round_double_le_next)
    also have "\<dots> \<le> pow2 (ilog2 y)" using lt by (intro pow2_mono) linarith
    also have "\<dots> \<le> round_double y" using n by (rule round_double_ge_pow2)
    finally show ?thesis .
  qed
qed

text \<open>Below the least normal double the result of rounding is at most that double.\<close>

lemma round_double_subnormal:
  assumes "0 \<le> x" and "x < pow2 (- 1022)"
  shows "round_double x \<le> pow2 (- 1022)"
proof (cases "x = 0")
  case True
  then show ?thesis using pow2_pos [of "- 1022"] by (simp add: round_double_def)
next
  case False
  then have x: "0 < x" using assms(1) by simp
  have "pow2 (ilog2 x) \<le> x" using x by (rule ilog2_bounds)
  also have "x < pow2 (- 1022)" by fact
  finally have "ilog2 x < - 1022" by (rule pow2_less_cancel)
  then have q: "quantum x = pow2 (- 1074)" by (simp add: quantum_def max_def)
  have "pow2 (- 1022) = pow2 (52 + (- 1074))" by simp
  also have "\<dots> = pow2 52 * pow2 (- 1074)" by (rule pow2_add)
  also have "pow2 52 = 2 ^ 52" using pow2_nat [of 52] by simp
  finally have g: "pow2 (- 1022) = of_int (2 ^ 52) * quantum x" by (simp add: q)
  have "round_double x \<le> of_int (2 ^ 52) * quantum x"
    using False assms(2) unfolding g by (intro round_double_le_grid) simp_all
  then show ?thesis unfolding g .
qed

text \<open>An int up to \<open>2^53\<close> converts exactly.\<close>

lemma round_double_of_int_exact:
  assumes "0 \<le> n" and "n \<le> 2 ^ 53"
  shows "round_double (of_int n) = of_int n"
proof (cases "n = 0")
  case True
  then show ?thesis by (simp add: round_double_def)
next
  case False
  define x :: rat where "x = of_int n"
  have x1: "1 \<le> x" using False assms(1) by (simp add: x_def)
  then have x: "0 < x" by simp
  have xu: "x \<le> 2 ^ 53" using assms(2) unfolding x_def by (metis of_int_le_iff of_int_numeral of_int_power)
  define e where "e = ilog2 x"
  have "pow2 0 \<le> x" using x1 by (simp add: pow2_def)
  also have "x < pow2 (e + 1)" unfolding e_def using x by (rule ilog2_bounds)
  finally have e0: "0 \<le> e" using pow2_less_cancel [of 0 "e + 1"] by simp
  have "pow2 e \<le> x" unfolding e_def using x by (rule ilog2_bounds)
  also have "x \<le> 2 ^ 53" by fact
  also have "(2 ^ 53 :: rat) < pow2 54" using pow2_nat [of 54] by simp
  finally have e53: "e \<le> 53" using pow2_less_cancel [of e 54] by simp
  have q: "quantum x = pow2 (e - 52)" using e0 by (simp add: quantum_def e_def max_def)
  have "\<exists>m. x = of_int m * quantum x"
  proof (cases "e \<le> 52")
    case True
    have "pow2 (52 - e) * pow2 (e - 52) = pow2 ((52 - e) + (e - 52))" by (simp only: pow2_add)
    also have "\<dots> = 1" by (simp add: pow2_def)
    finally have i: "pow2 (52 - e) * pow2 (e - 52) = 1" .
    have "pow2 (52 - e) = 2 ^ nat (52 - e)" using True by (simp add: pow2_def)
    then have "of_int (n * 2 ^ nat (52 - e)) * quantum x = x * (pow2 (52 - e) * pow2 (e - 52))"
      unfolding q by (simp add: x_def)
    then show ?thesis using i by (metis mult.right_neutral)
  next
    case False
    with e53 have e: "e = 53" by simp
    have "pow2 53 \<le> x" using \<open>pow2 e \<le> x\<close> e by simp
    then have "x = 2 ^ 53" using xu pow2_nat [of 53] by simp
    moreover have "quantum x = 2" using q e by (simp add: pow2_def)
    ultimately have "x = of_int (2 ^ 52) * quantum x" by simp
    then show ?thesis by blast
  qed
  then obtain m where m: "x = of_int m * quantum x" ..
  then have "x / quantum x = of_int m" using quantum_pos [of x] by (simp add: field_simps)
  then have "round_half_even (x / quantum x) = m" by (simp only: rhe_of_int)
  then have "round_double x = of_int m * quantum x" using x by (simp add: round_double_quantum)
  then show ?thesis using m by (simp add: x_def)
qed

section \<open>Facts about the float operations\<close>

text \<open>
  What the conversion of an int gives, in and out of the float range, when a product by a
  table factor and a quotient by an occupancy are finite floats, and how the quotient
  moves with the occupancy.
\<close>

lemma bind_err_weak_cong: "r = r' \<Longrightarrow> bind_err r f = bind_err r' f"
  by simp

lemma bind_err_simps: "bind_err (Inl e) f = Inl e" "bind_err (Inr x) f = f x"
  by (simp_all add: bind_err_def)

lemma double_of_in_range:
  "0 \<le> x \<Longrightarrow> x < 2 ^ 1024 - 2 ^ 970 \<Longrightarrow> double_of s x = Finite s (round_double x)"
  using round_double_below_limit [of x] by (simp add: double_of_def Let_def)

lemma double_of_zero: "double_of s 0 = Finite s 0"
  by (simp add: double_of_def round_double_def)

lemma float_ge0_double_of: "float_ge0 (double_of False x)"
  by (simp add: double_of_def Let_def)

lemma float_truediv_double_of:
  "y \<noteq> 0 \<Longrightarrow> \<exists>r. float_truediv (double_of False x) (Finite False y) = Inr r \<and> float_ge0 r"
  by (simp add: double_of_def Let_def)

lemma float_truediv_no_zero_division:
  "y \<noteq> 0 \<Longrightarrow> float_truediv x (Finite t y) \<noteq> Inl ZeroDivisionError"
  by (cases x) simp_all

text \<open>Ints of magnitude below \<open>2^1024 - 2^970\<close> convert; the sign goes with the int.\<close>

lemma float_of_int_in_range:
  assumes "\<bar>k\<bar> < 2 ^ 1024 - 2 ^ 970"
  shows "float_of_int k = Inr (Finite (k < 0) (round_double (of_int \<bar>k\<bar>)))"
proof -
  have "(of_int \<bar>k\<bar> :: rat) < of_int (2 ^ 1024 - 2 ^ 970)"
    using assms by (simp only: of_int_less_iff)
  then have "(of_int \<bar>k\<bar> :: rat) < 2 ^ 1024 - 2 ^ 970" by simp
  then have "round_double (of_int \<bar>k\<bar>) < 2 ^ 1024"
    by (intro round_double_below_limit) simp_all
  then show ?thesis by (simp add: float_of_int_def double_of_def Let_def)
qed

lemma float_of_int_cases:
  "float_of_int k = Inl OverflowError \<or>
   float_of_int k = Inr (Finite (k < 0) (round_double (of_int \<bar>k\<bar>)))"
  by (simp add: float_of_int_def double_of_def Let_def)

lemma float_of_int_nonneg:
  "0 \<le> k \<Longrightarrow> k < float_int_limit \<Longrightarrow>
     float_of_int k = Inr (Finite False (round_double (of_int k)))"
  using float_of_int_in_range [of k] by (simp add: float_int_limit_def)

lemma round_double_of_int_nonzero: "1 \<le> p \<Longrightarrow> round_double (of_int p) \<noteq> 0"
proof -
  assume "1 \<le> p"
  then have "(1::rat) \<le> of_int p" by simp
  then have "1 \<le> round_double (of_int p)" by (rule round_double_pos)
  then show ?thesis by simp
qed

lemma float_of_int_positive:
  assumes "1 \<le> p"
  shows "float_of_int p = Inl OverflowError \<or>
         (\<exists>y. y \<noteq> 0 \<and> float_of_int p = Inr (Finite False y))"
  using float_of_int_cases [of p] round_double_of_int_nonzero [OF assms] assms by auto

lemma float_of_int_overflow:
  assumes "float_int_limit \<le> \<bar>k\<bar>"
  shows "float_of_int k = Inl OverflowError"
proof -
  have "(of_int (2 ^ 1024 - 2 ^ 970) :: rat) \<le> of_int \<bar>k\<bar>"
    using assms unfolding float_int_limit_def by (simp only: of_int_le_iff)
  then have "(2::rat) ^ 1024 - 2 ^ 970 \<le> of_int \<bar>k\<bar>" by simp
  then have "2 ^ 1024 \<le> round_double (of_int \<bar>k\<bar>)" by (rule round_double_above_limit)
  then show ?thesis by (simp add: float_of_int_def double_of_def Let_def)
qed

lemma float_of_int_finite:
  assumes "\<bar>k\<bar> < float_int_limit"
  obtains y where "float_of_int k = Inr (Finite (k < 0) y)" "0 \<le> y" "y < 2 ^ 1024"
    "k \<noteq> 0 \<Longrightarrow> 1 \<le> y"
proof -
  let ?y = "round_double (of_int \<bar>k\<bar>)"
  have r: "\<bar>k\<bar> < 2 ^ 1024 - 2 ^ 970" using assms by (simp add: float_int_limit_def)
  then have 1: "float_of_int k = Inr (Finite (k < 0) ?y)" by (rule float_of_int_in_range)
  have 2: "0 \<le> ?y" by (intro round_double_nonneg) simp
  have "(of_int \<bar>k\<bar> :: rat) < of_int (2 ^ 1024 - 2 ^ 970)" using r by (simp only: of_int_less_iff)
  then have "(of_int \<bar>k\<bar> :: rat) < 2 ^ 1024 - 2 ^ 970" by simp
  then have 3: "?y < 2 ^ 1024" by (intro round_double_below_limit) simp_all
  have 4: "1 \<le> ?y" if "k \<noteq> 0"
  proof -
    have "1 \<le> \<bar>k\<bar>" using that by simp
    then have "(1::rat) \<le> of_int \<bar>k\<bar>" by (simp only: of_int_1_le_iff)
    then show ?thesis by (rule round_double_pos)
  qed
  from 1 2 3 4 show ?thesis using that by blast
qed

lemma factor_bounds:
  assumes "1 / 1000 \<le> q" and "q \<le> 1 / 4"
  shows "0 \<le> round_double q" and "round_double q \<le> 1 / 2" and "q / 2 \<le> round_double q"
proof -
  have n: "pow2 (- 1022) \<le> q" using assms(1) by (rule pow2_tiny)
  have q: "0 < q" using assms(1) by simp
  from round_double_rel_error(2) [OF n] have "round_double q \<le> q * (1 + 1 / 2 ^ 53)" .
  also have "\<dots> \<le> q * 2" using q by (intro mult_left_mono) simp_all
  finally show "round_double q \<le> 1 / 2" using assms(2) by simp
  from round_double_rel_error(1) [OF n] have "q * (1 - 1 / 2 ^ 53) \<le> round_double q" .
  moreover have "q * (1 / 2) \<le> q * (1 - 1 / 2 ^ 53)" using q by (intro mult_left_mono) simp_all
  ultimately show "q / 2 \<le> round_double q" by simp
  then show "0 \<le> round_double q" using q by simp
qed

lemma product_bounds:
  assumes "0 \<le> c" "c \<le> 1 / 2" "0 \<le> y" "y < 2 ^ 1024"
  shows "0 \<le> round_double (c * y)" and "round_double (c * y) < 2 ^ 1024 - 2 ^ 970"
proof -
  have nn: "0 \<le> c * y" using assms by simp
  have "c * y \<le> 1 / 2 * y" using assms by (intro mult_right_mono) simp_all
  also have "\<dots> < 2 ^ 1023" using assms(4) by simp
  finally have lt: "c * y < 2 ^ 1023" .
  show "round_double (c * y) < 2 ^ 1024 - 2 ^ 970"
    using nn lt by (rule round_double_below_half_range)
  show "0 \<le> round_double (c * y)" using nn by (rule round_double_nonneg)
qed

lemma double_of_product:
  assumes "0 \<le> c" "c \<le> 1 / 2" "0 \<le> y" "y < 2 ^ 1024"
  shows "double_of s (c * y) = Finite s (round_double (c * y))"
  using product_bounds(2) [OF assms] by (simp add: double_of_def Let_def)

lemma double_of_quotient:
  assumes "0 \<le> m" "m < 2 ^ 1024 - 2 ^ 970" "1 \<le> y"
  shows "double_of s (m / y) = Finite s (round_double (m / y))"
proof -
  have "m / y \<le> m / 1" using assms by (intro divide_left_mono) simp_all
  then have "m / y < 2 ^ 1024 - 2 ^ 970" using assms(2) by simp
  moreover have "0 \<le> m / y" using assms by simp
  ultimately show ?thesis by (intro double_of_in_range)
qed

lemma plain_entry_finite:
  assumes "0 \<le> c" "c \<le> 1 / 2" "0 \<le> y" "y < 2 ^ 1024"
  shows "float_mul (Finite False c) (Finite s y) = Finite s (round_double (c * y))"
  using double_of_product [OF assms] by simp

lemma car_entry_finite:
  assumes "0 \<le> c" "c \<le> 1 / 2" "0 \<le> y" "y < 2 ^ 1024" "1 \<le> z"
  shows "float_truediv (Finite s (round_double (c * y))) (Finite t z) =
           Inr (Finite (s \<noteq> t) (round_double (round_double (c * y) / z)))"
proof -
  have "double_of (s \<noteq> t) (round_double (c * y) / z) =
          Finite (s \<noteq> t) (round_double (round_double (c * y) / z))"
    using product_bounds [OF assms(1-4)] assms(5) by (rule double_of_quotient)
  then show ?thesis using assms(5) by simp
qed

lemma product_lower:
  assumes "1 / 1000 \<le> q" "q \<le> 1 / 4" "1 \<le> y"
  shows "1 / 2 ^ 12 \<le> round_double (round_double q * y)"
proof -
  have c: "q / 2 \<le> round_double q" using assms(1,2) by (rule factor_bounds)
  have "1 / 2000 \<le> q / 2" using assms(1) by simp
  also note c
  also have "round_double q \<le> round_double q * y"
    using assms(3) factor_bounds(1) [OF assms(1,2)] by (simp add: mult_le_cancel_left1)
  finally have x: "1 / 2000 \<le> round_double q * y" .
  then have n: "pow2 (- 1022) \<le> round_double q * y" by (intro pow2_small) simp
  have "(1::rat) / 2 ^ 12 \<le> 1 / 2000 * (1 - 1 / 2 ^ 53)" by simp
  also have "\<dots> \<le> round_double q * y * (1 - 1 / 2 ^ 53)"
    using x by (intro mult_right_mono) simp_all
  also have "\<dots> \<le> round_double (round_double q * y)"
    using n by (rule round_double_rel_error)
  finally show ?thesis .
qed

text \<open>Dividing by a larger occupancy never gives a larger float.\<close>

lemma quotient_monotone:
  assumes m: "0 \<le> m" and p: "1 \<le> p1" "p1 \<le> p2"
  shows "round_double (m / round_double (of_int p2)) \<le> round_double (m / round_double (of_int p1))"
proof -
  define z1 :: rat where "z1 = round_double (of_int p1)"
  define z2 :: rat where "z2 = round_double (of_int p2)"
  have z1: "1 \<le> z1" unfolding z1_def using p by (intro round_double_pos) simp
  have "(of_int p1 :: rat) \<le> of_int p2" using p(2) by (simp only: of_int_le_iff)
  then have z12: "z1 \<le> z2" unfolding z1_def z2_def using p(1) by (intro round_double_mono) simp_all
  have "m / z2 \<le> m / z1" using m z1 z12 by (intro divide_left_mono) simp_all
  moreover have "0 \<le> m / z2" using m z1 z12 by simp
  ultimately have "round_double (m / z2) \<le> round_double (m / z1)" by (intro round_double_mono)
  then show ?thesis by (simp add: z1_def z2_def)
qed

text \<open>
  It gives a smaller one while the occupancies are at most \<open>2^52\<close> and the smaller quotient
  is above the least normal double.
\<close>

lemma quotient_strict:
  assumes m: "0 \<le> m" and p: "1 \<le> p1" "p1 < p2" "p2 \<le> 2 ^ 52"
    and n: "pow2 (- 1022) < round_double (m / round_double (of_int p2))"
  shows "round_double (m / round_double (of_int p2)) < round_double (m / round_double (of_int p1))"
proof -
  define P1 :: rat where "P1 = of_int p1"
  define P2 :: rat where "P2 = of_int p2"
  have e1: "round_double (of_int p1) = P1"
    unfolding P1_def using p by (intro round_double_of_int_exact) simp_all
  have e2: "round_double (of_int p2) = P2"
    unfolding P2_def using p by (intro round_double_of_int_exact) simp_all
  have "p1 + 1 \<le> p2" using p(2) by simp
  then have "(of_int (p1 + 1) :: rat) \<le> of_int p2" by (simp only: of_int_le_iff)
  then have P12: "P1 + 1 \<le> P2" by (simp add: P1_def P2_def)
  have P1: "1 \<le> P1" using p(1) by (simp add: P1_def)
  have "(of_int p2 :: rat) \<le> of_int (2 ^ 52)" using p(3) by (simp only: of_int_le_iff)
  then have P2: "P2 \<le> 2 ^ 52" by (simp add: P2_def)
  have key: "P1 * (1 + 1 / 2 ^ 53) < P2 * (1 - 1 / 2 ^ 53)"
    using P1 P12 P2 by (simp add: algebra_simps)
  have x0: "0 \<le> m / P2" using m P1 P12 by simp
  have nx2: "pow2 (- 1022) \<le> m / P2"
  proof (rule ccontr)
    assume "\<not> pow2 (- 1022) \<le> m / P2"
    then have "m / P2 < pow2 (- 1022)" by simp
    with x0 have "round_double (m / P2) \<le> pow2 (- 1022)" by (rule round_double_subnormal)
    with n show False by (simp add: e2)
  qed
  then have "0 < m / P2" using pow2_pos [of "- 1022"] by simp
  then have mpos: "0 < m" using P1 P12 by (simp add: zero_less_divide_iff)
  have "m / P2 \<le> m / P1" using m P1 P12 by (intro divide_left_mono) simp_all
  with nx2 have nx1: "pow2 (- 1022) \<le> m / P1" by simp
  have "round_double (m / P2) \<le> m / P2 * (1 + 1 / 2 ^ 53)"
    using nx2 by (rule round_double_rel_error)
  also have "\<dots> = m * (P1 * (1 + 1 / 2 ^ 53)) / (P1 * P2)"
    using P1 P12 by (simp add: field_simps)
  also have "\<dots> < m * (P2 * (1 - 1 / 2 ^ 53)) / (P1 * P2)"
    using key mpos P1 P12 by (intro divide_strict_right_mono mult_strict_left_mono) simp_all
  also have "\<dots> = m / P1 * (1 - 1 / 2 ^ 53)"
    using P1 P12 by (simp add: field_simps)
  also have "\<dots> \<le> round_double (m / P1)"
    using nx1 by (rule round_double_rel_error)
  finally show ?thesis by (simp add: e1 e2)
qed

text \<open>The quotient of a product for an int distance is above the least normal double.\<close>

lemma quotient_normal:
  assumes m: "1 / 2 ^ 12 \<le> m" and p: "1 \<le> p" "p \<le> 2 ^ 52"
  shows "pow2 (- 1022) < round_double (m / round_double (of_int p))"
proof -
  define P :: rat where "P = of_int p"
  have e: "round_double (of_int p) = P"
    unfolding P_def using p by (intro round_double_of_int_exact) simp_all
  have P1: "1 \<le> P" using p(1) by (simp add: P_def)
  have "(of_int p :: rat) \<le> of_int (2 ^ 52)" using p(2) by (simp only: of_int_le_iff)
  then have P2: "P \<le> 2 ^ 52" by (simp add: P_def)
  have mpos: "0 < m" using m by (rule less_le_trans [rotated]) simp
  have "(1::rat) / 2 ^ 64 = (1 / 2 ^ 12) / 2 ^ 52" by simp
  also have "\<dots> \<le> m / 2 ^ 52" using m by (simp add: divide_right_mono)
  also have "\<dots> \<le> m / P" using P1 P2 mpos by (intro divide_left_mono) simp_all
  finally have x: "1 / 2 ^ 64 \<le> m / P" .
  have "(1::rat) / 2 ^ 70 \<le> 1 / 2 ^ 64" by simp
  also note x
  finally have nx: "pow2 (- 1022) \<le> m / P" by (rule pow2_small)
  have "pow2 (- 1022) \<le> 1 / 2 ^ 70" by (intro pow2_small) simp
  also have "(1::rat) / 2 ^ 70 < 1 / 2 ^ 64 * (1 - 1 / 2 ^ 53)" by simp
  also have "\<dots> \<le> m / P * (1 - 1 / 2 ^ 53)" using x by (intro mult_right_mono) simp_all
  also have "\<dots> \<le> round_double (m / P)" using nx by (rule round_double_rel_error)
  finally show ?thesis by (simp add: e)
qed

lemma float_of_number_cases:
  "float_of_number n = Inl OverflowError \<or> (\<exists>y. float_of_number n = Inr y)"
  using float_of_int_cases by (cases n) auto

lemma float_of_number_converts:
  "number_converts n \<Longrightarrow> \<exists>y. float_of_number n = Inr y"
  using float_of_int_in_range by (cases n) (auto simp add: float_int_limit_def)

lemma float_of_number_overflow:
  "\<not> number_converts n \<Longrightarrow> float_of_number n = Inl OverflowError"
  using float_of_int_overflow by (cases n) auto

lemma positive_distance_converts:
  assumes "positive_distance distance"
  shows "\<exists>y. float_of_number distance = Inr (Finite False y) \<and> 0 < y \<and> y < 2 ^ 1024 \<and>
             (number_is_int distance \<longrightarrow> 1 \<le> y)"
proof (cases distance)
  case (Int_num k)
  then have k: "0 < k" "k < float_int_limit" using assms by simp_all
  then have kk: "\<bar>k\<bar> < float_int_limit" by simp
  obtain y where
    fk: "float_of_int k = Inr (Finite (k < 0) y)" and y0: "0 \<le> y" "y < 2 ^ 1024"
    and y1: "k \<noteq> 0 \<Longrightarrow> 1 \<le> y"
    using float_of_int_finite [OF kk] by blast
  have "1 \<le> y" using y1 k(1) by simp
  then show ?thesis using fk y0 k(1) Int_num by simp
next
  case (Float_num f)
  then show ?thesis using assms by (cases f) simp_all
qed

text \<open>A quotient by a float raises on the zero divisor and on nothing else.\<close>

lemma float_truediv_zero: "float_truediv x (Finite t 0) = Inl ZeroDivisionError"
  by (cases x) simp_all

lemma float_truediv_returns: "z \<noteq> 0 \<Longrightarrow> \<exists>r. float_truediv x (Finite t z) = Inr r"
  by (cases x) simp_all


section \<open>Evaluation of concrete terms\<close>

text \<open>
  Rules with which the simplifier computes a rounding whose argument is a numeral.
\<close>

lemma floor_rat_numeral_div: "\<lfloor>numeral a / numeral b :: rat\<rfloor> = numeral a div numeral b"
  by (metis floor_divide_of_int_eq of_int_numeral)

lemma ceiling_rat_numeral_div: "\<lceil>numeral a / numeral b :: rat\<rceil> = - (- numeral a div numeral b)"
  by (metis ceiling_def floor_divide_of_int_eq minus_divide_left of_int_minus of_int_numeral)

lemma bit_length_numeral:
  "bit_length 0 = 0"
  "bit_length (Suc 0) = Suc 0"
  "bit_length (numeral n) = Suc (bit_length (numeral n div 2))"
  by (simp_all add: bit_length.simps)

lemma decimal_digit: "n < 10 \<Longrightarrow> decimal n = [''0123456789'' ! n]"
  by (subst decimal.simps) simp

lemmas float_eval = double_of_def round_double_def quantum_def ilog2_def pow2_def round_half_even_def Let_def
  floor_rat_numeral_div ceiling_rat_numeral_div bit_length_numeral float_of_int_def

section \<open>Facts about the table\<close>

text \<open>
  The table cell raises nothing; each factor is the double nearest to its thousandth.
\<close>

lemma int_truediv_1000:
  "0 \<le> a \<Longrightarrow> a < 1000 \<Longrightarrow> int_truediv a 1000 = Inr (Finite False (round_double (of_int a / 1000)))"
proof -
  assume a: "0 \<le> a" "a < 1000"
  then have "(of_int a :: rat) < of_int 1000" by (simp only: of_int_less_iff)
  then have "(of_int a :: rat) / 1000 < 1" by simp
  moreover have "(1::rat) < 2 ^ 1024 - 2 ^ 970" by simp
  ultimately have "(of_int a :: rat) / 1000 < 2 ^ 1024 - 2 ^ 970" by linarith
  moreover have "0 \<le> (of_int a :: rat) / 1000" using a by simp
  ultimately have "double_of False (of_int a / 1000) = Finite False (round_double (of_int a / 1000))"
    by (intro double_of_in_range)
  then show ?thesis using a by (simp add: int_truediv_def)
qed

lemma kgco2e_per_km_value:
  "kgco2e_per_km = Inr
     [(''bicycle'', [Finite False 0, Finite False (round_double (6 / 1000))]),
      (''coach bus'', [Finite False (round_double (27 / 1000)), Finite False (round_double (57 / 1000))]),
      (''gasoline car'', [Finite False (round_double (170 / 1000)), Finite False (round_double (242 / 1000))]),
      (''electric car'', [Finite False (round_double (48 / 1000)), Finite False (round_double (110 / 1000))]),
      (''motorbike'', [Finite False (round_double (114 / 1000)), Finite False (round_double (163 / 1000))]),
      (''tgv'', [Finite False (round_double (4 / 1000)), Finite False (round_double (21 / 1000))]),
      (''rail UK'', [Finite False (round_double (35 / 1000)), Finite False 0]),
      (''rail CH'', [Finite False 0, Finite False (round_double (7 / 1000))]),
      (''tram'', [Finite False (round_double (29 / 1000)), Finite False (round_double (43 / 1000))]),
      (''flight short'', [Finite False (round_double (246 / 1000)), Finite False (round_double (292 / 1000))]),
      (''flight long'', [Finite False (round_double (253 / 1000)), Finite False (round_double (285 / 1000))])]"
  unfolding kgco2e_per_km_def gco2e_per_km_def
  by (simp add: bind_err_simps list_get_def int_truediv_1000 round_double_def [of 0] cong: bind_err_weak_cong)

lemma table_factor_OWID:
  "table_factor ''bicycle'' ''OWID'' = Inr (Finite False 0)"
  "table_factor ''coach bus'' ''OWID'' = Inr (Finite False (round_double (27 / 1000)))"
  "table_factor ''gasoline car'' ''OWID'' = Inr (Finite False (round_double (170 / 1000)))"
  "table_factor ''electric car'' ''OWID'' = Inr (Finite False (round_double (48 / 1000)))"
  "table_factor ''motorbike'' ''OWID'' = Inr (Finite False (round_double (114 / 1000)))"
  "table_factor ''rail CH'' ''OWID'' = Inr (Finite False 0)"
  by (simp_all add: table_factor_def dataset_index_def kgco2e_per_km_value bind_err_simps
        dict_get_def list_get_def)

lemma table_factor_PSI:
  "table_factor ''bicycle'' ''PSI'' = Inr (Finite False (round_double (6 / 1000)))"
  "table_factor ''coach bus'' ''PSI'' = Inr (Finite False (round_double (57 / 1000)))"
  "table_factor ''gasoline car'' ''PSI'' = Inr (Finite False (round_double (242 / 1000)))"
  "table_factor ''electric car'' ''PSI'' = Inr (Finite False (round_double (110 / 1000)))"
  "table_factor ''motorbike'' ''PSI'' = Inr (Finite False (round_double (163 / 1000)))"
  "table_factor ''rail CH'' ''PSI'' = Inr (Finite False (round_double (7 / 1000)))"
  by (simp_all add: table_factor_def dataset_index_def kgco2e_per_km_value bind_err_simps
        dict_get_def list_get_def)

lemmas factor_facts =
  factor_bounds [of "170 / 1000"] factor_bounds [of "48 / 1000"] factor_bounds [of "27 / 1000"]
  factor_bounds [of "114 / 1000"] factor_bounds [of "242 / 1000"] factor_bounds [of "110 / 1000"]
  factor_bounds [of "6 / 1000"] factor_bounds [of "57 / 1000"] factor_bounds [of "163 / 1000"]
  factor_bounds [of "7 / 1000"]

section \<open>Facts about the runs of the recalculator\<close>

text \<open>
  A run converts the distance, then the occupancy, then divides the two car products: the
  two lemmas \<open>recalc_data_OWID\<close> and \<open>recalc_data_PSI\<close> give it in that form, one for each
  column of the table.
\<close>

lemmas recalc_eval = recalc_data_def kgco2e_per_km_value per_trip_def per_trip_shared_def
  float_mul_number_def float_truediv_int_def bind_err_simps dict_get_def list_get_def

lemmas result_eval = recalc_result_def recalc_eval float_eval

lemma recalc_data_OWID:
  "recalc_data ''OWID'' distance p =
     bind_err (float_of_number distance) (\<lambda>fk.
     bind_err (float_of_int p) (\<lambda>fp.
     bind_err (float_truediv (float_mul (Finite False (round_double (170 / 1000))) fk) fp) (\<lambda>gasoline_car.
     bind_err (float_truediv (float_mul (Finite False (round_double (48 / 1000))) fk) fp) (\<lambda>electric_car.
     Inr [(''bicycle'', float_mul (Finite False 0) fk),
          (''coach bus'', float_mul (Finite False (round_double (27 / 1000))) fk),
          (''gasoline car'', gasoline_car),
          (''electric car'', electric_car),
          (''motorbike'', float_mul (Finite False (round_double (114 / 1000))) fk),
          (''rail CH'', float_mul (Finite False 0) fk)]))))"
  by (cases "float_of_number distance"; cases "float_of_int p")
     (simp_all add: recalc_eval)

lemma recalc_data_PSI:
  "model \<noteq> ''OWID'' \<Longrightarrow> recalc_data model distance p =
     bind_err (float_of_number distance) (\<lambda>fk.
     bind_err (float_of_int p) (\<lambda>fp.
     bind_err (float_truediv (float_mul (Finite False (round_double (242 / 1000))) fk) fp) (\<lambda>gasoline_car.
     bind_err (float_truediv (float_mul (Finite False (round_double (110 / 1000))) fk) fp) (\<lambda>electric_car.
     Inr [(''bicycle'', float_mul (Finite False (round_double (6 / 1000))) fk),
          (''coach bus'', float_mul (Finite False (round_double (57 / 1000))) fk),
          (''gasoline car'', gasoline_car),
          (''electric car'', electric_car),
          (''motorbike'', float_mul (Finite False (round_double (163 / 1000))) fk),
          (''rail CH'', float_mul (Finite False (round_double (7 / 1000))) fk)]))))"
  by (cases "float_of_number distance"; cases "float_of_int p")
     (simp_all add: recalc_eval)

lemma values_of_no_zero_division: "values_of data labels \<noteq> Inl ZeroDivisionError"
  by (induction labels)
     (auto simp add: bind_err_def dict_get_def split: sum.splits option.splits)

lemma values_of_keys:
  "set labels \<subseteq> fst ` set data \<Longrightarrow> \<exists>vs. values_of data labels = Inr vs"
proof (induction labels)
  case Nil
  then show ?case by simp
next
  case (Cons k labels)
  then obtain vs where vs: "values_of data labels = Inr vs" by auto
  from Cons.prems have "k \<in> fst ` set data" by simp
  then obtain v where "map_of data k = Some v"
    by (metis domD dom_map_of_conv_image_fst)
  then show ?case using vs by (simp add: dict_get_def bind_err_simps)
qed

lemma recalc_data_no_zero_division:
  assumes "1 \<le> p"
  shows "recalc_data model distance p \<noteq> Inl ZeroDivisionError"
proof -
  from float_of_int_positive [OF assms] consider
      "float_of_int p = Inl OverflowError"
    | y where "y \<noteq> 0" "float_of_int p = Inr (Finite False y)" by blast
  then show ?thesis
  proof cases
    case 1
    then show ?thesis
      using float_of_number_cases [of distance]
      by (cases "model = ''OWID''") (auto simp add: recalc_data_OWID recalc_data_PSI bind_err_simps)
  next
    case 2
    show ?thesis
    proof (cases "float_of_number distance")
      case (Inl e)
      then have "e = OverflowError" using float_of_number_cases [of distance] by simp
      with Inl show ?thesis
        by (cases "model = ''OWID''") (simp_all add: recalc_data_OWID recalc_data_PSI bind_err_simps)
    next
      case (Inr fk)
      have nz: "float_truediv x (Finite False y) \<noteq> Inl ZeroDivisionError" for x
        using 2(1) by (rule float_truediv_no_zero_division)
      show ?thesis
        using Inr 2(2) nz
        by (cases "model = ''OWID''")
           (auto simp add: recalc_data_OWID recalc_data_PSI bind_err_def split: sum.splits)
    qed
  qed
qed

lemma recalc_data_overflow_distance:
  "float_int_limit \<le> \<bar>k\<bar> \<Longrightarrow> recalc_data model (Int_num k) p = Inl OverflowError"
  using float_of_int_overflow [of k]
  by (cases "model = ''OWID''") (simp_all add: recalc_data_OWID recalc_data_PSI bind_err_simps)

lemma recalc_data_overflow_passengers:
  "\<bar>k\<bar> < float_int_limit \<Longrightarrow> float_int_limit \<le> \<bar>p\<bar> \<Longrightarrow>
     recalc_data model (Int_num k) p = Inl OverflowError"
  using float_of_int_overflow [of p] float_of_int_in_range [of k]
  by (cases "model = ''OWID''")
     (simp_all add: recalc_data_OWID recalc_data_PSI bind_err_simps float_int_limit_def)

lemma recalc_data_overflow:
  assumes "0 \<le> k" "1 \<le> p" "float_int_limit \<le> k \<or> float_int_limit \<le> p"
  shows "recalc_data d (Int_num k) p = Inl OverflowError"
proof (cases "float_int_limit \<le> k")
  case True
  then show ?thesis using assms(1) by (intro recalc_data_overflow_distance) simp
next
  case False
  then show ?thesis using assms by (intro recalc_data_overflow_passengers) simp_all
qed

text \<open>A run on a distance that is not negative and an occupancy of at least one, both in range.\<close>

lemma recalc_data_in_range:
  assumes k: "0 \<le> k" "k < float_int_limit" and p: "1 \<le> p" "p < float_int_limit"
  obtains fk fp where
    "float_of_int k = Inr (Finite False fk)" "float_of_int p = Inr (Finite False fp)" "fp \<noteq> 0"
proof -
  have "float_of_int k = Inr (Finite False (round_double (of_int k)))"
    using k by (rule float_of_int_nonneg)
  moreover have "float_of_int p = Inr (Finite False (round_double (of_int p)))"
    using p by (intro float_of_int_nonneg) simp_all
  moreover have "round_double (of_int p) \<noteq> 0"
    using p(1) by (rule round_double_of_int_nonzero)
  ultimately show ?thesis using that by blast
qed

lemma recalc_data_formula_in_range:
  assumes d: "d = ''OWID'' \<or> d = ''PSI''"
    and k: "0 \<le> k" "k < float_int_limit" and p: "1 \<le> p" "p < float_int_limit"
  shows "\<exists>data. recalc_data d (Int_num k) p = Inr data \<and>
           (\<forall>mode \<in> set [''bicycle'', ''coach bus'', ''gasoline car'', ''electric car'',
                           ''motorbike'', ''rail CH''].
              \<exists>r. dict_get data mode = Inr r \<and> spec_result mode d (Int_num k) p = Inr r \<and> float_ge0 r)"
proof -
  from k p obtain fk fp where
    fk: "float_of_int k = Inr (Finite False fk)" and
    fp: "float_of_int p = Inr (Finite False fp)" and nz: "fp \<noteq> 0"
    by (rule recalc_data_in_range)
  from d show ?thesis
  proof
    assume d: "d = ''OWID''"
    obtain g where g: "float_truediv (double_of False (round_double (170 / 1000) * fk)) (Finite False fp) = Inr g"
      "float_ge0 g" using float_truediv_double_of [OF nz] by blast
    obtain e where e: "float_truediv (double_of False (round_double (48 / 1000) * fk)) (Finite False fp) = Inr e"
      "float_ge0 e" using float_truediv_double_of [OF nz] by blast
    show ?thesis
      using fk fp g e
      by (simp add: d recalc_data_OWID bind_err_simps dict_get_def spec_result_def
            table_factor_OWID float_mul_number_def float_truediv_int_def float_ge0_double_of)
  next
    assume d: "d = ''PSI''"
    obtain g where g: "float_truediv (double_of False (round_double (242 / 1000) * fk)) (Finite False fp) = Inr g"
      "float_ge0 g" using float_truediv_double_of [OF nz] by blast
    obtain e where e: "float_truediv (double_of False (round_double (110 / 1000) * fk)) (Finite False fp) = Inr e"
      "float_ge0 e" using float_truediv_double_of [OF nz] by blast
    show ?thesis
      using fk fp g e
      by (simp add: d recalc_data_PSI bind_err_simps dict_get_def spec_result_def
            table_factor_PSI float_mul_number_def float_truediv_int_def float_ge0_double_of)
  qed
qed

lemma recalc_data_finite:
  assumes "\<bar>k\<bar> < float_int_limit" and "\<bar>p\<bar> < float_int_limit" and "p \<noteq> 0"
  shows "\<exists>data. recalc_data model (Int_num k) p = Inr data \<and> list_all float_finite (map snd data)"
proof -
  from assms(1) obtain y where
    k: "float_of_int k = Inr (Finite (k < 0) y)" and y: "0 \<le> y" "y < 2 ^ 1024"
    by (rule float_of_int_finite)
  from assms(2) obtain z where
    p: "float_of_int p = Inr (Finite (p < 0) z)" and z: "1 \<le> z"
    using assms(3) by (auto elim: float_of_int_finite)
  have plain: "float_mul (Finite False c) (Finite (k < 0) y) = Finite (k < 0) (round_double (c * y))"
    if "0 \<le> c" "c \<le> 1 / 2" for c
    using that y by (rule plain_entry_finite)
  have car: "float_truediv (Finite (k < 0) (round_double (c * y))) (Finite (p < 0) z) =
      Inr (Finite ((k < 0) \<noteq> (p < 0)) (round_double (round_double (c * y) / z)))"
    if "0 \<le> c" "c \<le> 1 / 2" for c
    using that y z by (rule car_entry_finite)
  show ?thesis
    using k p factor_facts
    by (cases "model = ''OWID''")
       (simp_all add: recalc_data_OWID recalc_data_PSI bind_err_simps plain car
          del: float_mul.simps float_truediv.simps)
qed

lemma recalc_data_zero_passengers:
  assumes "\<bar>k\<bar> < float_int_limit"
  shows "recalc_data model (Int_num k) 0 = Inl ZeroDivisionError"
proof -
  from assms obtain y where
    k: "float_of_int k = Inr (Finite (k < 0) y)" and y: "0 \<le> y" "y < 2 ^ 1024"
    by (rule float_of_int_finite)
  have p: "float_of_int 0 = Inr (Finite False 0)"
    using float_of_int_in_range [of 0] by (simp add: round_double_def)
  have plain: "float_mul (Finite False c) (Finite (k < 0) y) = Finite (k < 0) (round_double (c * y))"
    if "0 \<le> c" "c \<le> 1 / 2" for c
    using that y by (rule plain_entry_finite)
  show ?thesis
    using k p factor_facts
    by (cases "model = ''OWID''")
       (simp_all add: recalc_data_OWID recalc_data_PSI bind_err_simps plain
          del: float_mul.simps)
qed

lemma occupancy_in_range:
  assumes k: "positive_distance distance" and p: "1 \<le> p1" "p1 < p2" "p2 < float_int_limit"
  shows "(\<forall>mode \<in> {''gasoline car'', ''electric car''}.
            \<exists>r1 r2. recalc_result d distance p1 mode = Inr r1 \<and>
                    recalc_result d distance p2 mode = Inr r2 \<and>
                    float_le r2 r1 \<and>
                    (p2 \<le> 2 ^ 52 \<and> (float_lt float_info_min r2 \<or> number_is_int distance) \<longrightarrow>
                       float_lt r2 r1)) \<and>
         (\<forall>mode \<in> {''bicycle'', ''coach bus'', ''motorbike'', ''rail CH''}.
            \<exists>r. recalc_result d distance p1 mode = Inr r \<and> recalc_result d distance p2 mode = Inr r)"
proof -
  obtain y where
    fk: "float_of_number distance = Inr (Finite False y)" and y: "0 < y" "y < 2 ^ 1024"
    and y1: "number_is_int distance \<Longrightarrow> 1 \<le> y"
    using positive_distance_converts [OF k] by blast
  have y0: "0 \<le> y" using y(1) by simp
  define z1 where "z1 = round_double (of_int p1)"
  define z2 where "z2 = round_double (of_int p2)"
  have f1: "float_of_int p1 = Inr (Finite False z1)"
    unfolding z1_def using p by (intro float_of_int_nonneg) simp_all
  have f2: "float_of_int p2 = Inr (Finite False z2)"
    unfolding z2_def using p by (intro float_of_int_nonneg) simp_all
  have z1: "1 \<le> z1" unfolding z1_def using p by (intro round_double_pos) simp
  have z2: "1 \<le> z2" unfolding z2_def using p by (intro round_double_pos) simp
  have plain: "float_mul (Finite False c) (Finite False y) = Finite False (round_double (c * y))"
    if "0 \<le> c" "c \<le> 1 / 2" for c
    using that y0 y(2) by (rule plain_entry_finite)
  have car: "float_truediv (Finite False (round_double (c * y))) (Finite False z) =
      Inr (Finite False (round_double (round_double (c * y) / z)))"
    if "0 \<le> c" "c \<le> 1 / 2" "1 \<le> z" for c z
    using car_entry_finite [OF that(1,2) y0 y(2) that(3), of False False] by simp
  have m0: "0 \<le> round_double (c * y)" if "0 \<le> c" for c
    using that y0 by (intro round_double_nonneg) simp
  have mono: "round_double (round_double (c * y) / z2) \<le> round_double (round_double (c * y) / z1)"
    if "0 \<le> c" for c
    unfolding z1_def z2_def using m0 [OF that] p by (intro quotient_monotone) simp_all
  have strict: "round_double (round_double (c * y) / z2) < round_double (round_double (c * y) / z1)"
    if "0 \<le> c" "p2 \<le> 2 ^ 52" "pow2 (- 1022) < round_double (round_double (c * y) / z2)" for c
    using m0 [OF that(1)] p(1,2) that(2,3) unfolding z1_def z2_def by (intro quotient_strict)
  have normal: "pow2 (- 1022) < round_double (round_double (round_double q * y) / z2)"
    if "1 / 1000 \<le> q" "q \<le> 1 / 4" "p2 \<le> 2 ^ 52" "number_is_int distance" for q
    unfolding z2_def using that p y1 by (intro quotient_normal product_lower) simp_all
  have strict_int: "round_double (round_double (round_double q * y) / z2)
      < round_double (round_double (round_double q * y) / z1)"
    if "1 / 1000 \<le> q" "q \<le> 1 / 4" "p2 \<le> 2 ^ 52" "number_is_int distance" for q
    using factor_bounds(1) [OF that(1,2)] that(3) normal [OF that] by (rule strict)
  have dec: "p2 \<le> 2 ^ 52 \<and>
      (pow2 (- 1022) < round_double (round_double (round_double q * y) / z2) \<or>
       number_is_int distance) \<longrightarrow>
      round_double (round_double (round_double q * y) / z2)
        < round_double (round_double (round_double q * y) / z1)"
    if "1 / 1000 \<le> q" "q \<le> 1 / 4" for q
    using strict [OF factor_bounds(1) [OF that]] strict_int [OF that] by blast
  show ?thesis
    using fk f1 f2 z1 z2 factor_facts
      mono [of "round_double (170 / 1000)"] mono [of "round_double (48 / 1000)"]
      mono [of "round_double (242 / 1000)"] mono [of "round_double (110 / 1000)"]
      dec [of "170 / 1000"] dec [of "48 / 1000"] dec [of "242 / 1000"] dec [of "110 / 1000"]
    by (cases "d = ''OWID''")
       (simp_all add: recalc_result_def recalc_data_OWID recalc_data_PSI bind_err_simps
          dict_get_def plain car float_info_min_def del: float_mul.simps float_truediv.simps)
qed

text \<open>What a run gives on every input: a mapping of the six modes, or one of two errors.\<close>

lemma recalc_data_keys_of:
  assumes "recalc_data model distance p = Inr data"
  shows "map fst data =
      [''bicycle'', ''coach bus'', ''gasoline car'', ''electric car'', ''motorbike'', ''rail CH'']"
  using assms by (auto simp add: recalc_data_def bind_err_def Let_def split: sum.splits)


lemma recalc_data_returns:
  assumes "number_converts distance" and "\<bar>p\<bar> < float_int_limit" and "p \<noteq> 0"
  shows "\<exists>data. recalc_data model distance p = Inr data"
proof -
  from assms(1) obtain fk where k: "float_of_number distance = Inr fk"
    using float_of_number_converts by blast
  from assms(2) obtain z where
    p: "float_of_int p = Inr (Finite (p < 0) z)" and z: "1 \<le> z"
    using assms(3) by (auto elim: float_of_int_finite)
  have car: "\<exists>r. float_truediv x (Finite (p < 0) z) = Inr r" for x
    using z by (intro float_truediv_returns) simp
  obtain g e where
    "float_truediv (float_mul (Finite False (round_double (170 / 1000))) fk) (Finite (p < 0) z) = Inr g"
    "float_truediv (float_mul (Finite False (round_double (48 / 1000))) fk) (Finite (p < 0) z) = Inr e"
    using car by blast
  moreover obtain g' e' where
    "float_truediv (float_mul (Finite False (round_double (242 / 1000))) fk) (Finite (p < 0) z) = Inr g'"
    "float_truediv (float_mul (Finite False (round_double (110 / 1000))) fk) (Finite (p < 0) z) = Inr e'"
    using car by blast
  ultimately show ?thesis
    using k p
    by (cases "model = ''OWID''")
       (simp_all add: recalc_data_OWID recalc_data_PSI bind_err_simps)
qed

lemma recalc_data_not_converted:
  "\<not> number_converts distance \<Longrightarrow> recalc_data model distance p = Inl OverflowError"
  using float_of_number_overflow [of distance]
  by (cases "model = ''OWID''") (simp_all add: recalc_data_OWID recalc_data_PSI bind_err_simps)

lemma recalc_data_occupancy_overflow:
  assumes "float_int_limit \<le> \<bar>p\<bar>"
  shows "recalc_data model distance p = Inl OverflowError"
  using float_of_int_overflow [OF assms] float_of_number_cases [of distance]
  by (cases "model = ''OWID''") (auto simp add: recalc_data_OWID recalc_data_PSI bind_err_simps)

lemma recalc_data_zero_occupancy:
  assumes "number_converts distance"
  shows "recalc_data model distance 0 = Inl ZeroDivisionError"
proof -
  from assms obtain fk where k: "float_of_number distance = Inr fk"
    using float_of_number_converts by blast
  have p: "float_of_int 0 = Inr (Finite False 0)"
    using float_of_int_in_range [of 0] by (simp add: round_double_def)
  show ?thesis
    using k p
    by (cases "model = ''OWID''")
       (simp_all add: recalc_data_OWID recalc_data_PSI bind_err_simps float_truediv_zero)
qed



lemma recalc_returns:
  assumes "\<bar>k\<bar> < float_int_limit" and "\<bar>p\<bar> < float_int_limit" and "p \<noteq> 0"
  shows "\<exists>shown. recalc model (Int_num k) p out = Inr shown"
proof -
  from recalc_data_finite [OF assms] obtain data where
    data: "recalc_data model (Int_num k) p = Inr data" by blast
  obtain vs where "values_of data (map fst data) = Inr vs"
    using values_of_keys [of "map fst data" data] by auto
  then show ?thesis using data by (simp add: recalc_def bind_err_simps Let_def)
qed

lemma slider_ranges:
  "k \<in> set slider_distance_km \<Longrightarrow> 0 \<le> k \<and> k \<le> 400"
  "p \<in> set slider_car_passengers \<Longrightarrow> 1 \<le> p \<and> p \<le> 5"
  by (auto simp add: slider_distance_km_def slider_car_passengers_def)

lemma recalc_returns_on_controls:
  assumes "k \<in> set slider_distance_km" and "p \<in> set slider_car_passengers"
  shows "\<exists>shown. recalc model (Int_num k) p out = Inr shown"
proof -
  have "(400::int) < float_int_limit" by (simp add: float_int_limit_def)
  then show ?thesis
    using slider_ranges(1) [OF assms(1)] slider_ranges(2) [OF assms(2)]
    by (intro recalc_returns) simp_all
qed

lemma run_PSI_200_1:
  "recalc_data ''PSI'' (Int_num 200) 1 = Inr
     [(''bicycle'', Finite False (5404319552844595 / 4503599627370496)),
      (''coach bus'', Finite False (6417629469002957 / 562949953421312)),
      (''gasoline car'', Finite False (6811694436397875 / 140737488355328)),
      (''electric car'', Finite False 22),
      (''motorbike'', Finite False (4588042120383693 / 140737488355328)),
      (''rail CH'', Finite False (6305039478318695 / 4503599627370496))]"
  by (simp add: recalc_eval float_eval cong: bind_err_weak_cong)

section \<open>The claims\<close>

text \<open>
  The claims of the specification, each stated on \<^verbatim>\<open>recalc\<close> as modelled above.  A claim
  that the code does not meet as written is given in the amended form that holds, with
  the input at which the original form fails.
\<close>

text \<open>
  C1 (amended): for the two datasets of the selector, OWID and PSI, a distance \<open>k \<ge> 0\<close> and an occupancy
  \<open>p \<ge> 1\<close>: when both ints are below \<open>2^1024 - 2^970\<close> the call produces a mapping, each
  of its six entries is the float \<open>table[mode][d] * k\<close>, divided by \<open>p\<close> for gasoline car
  and electric car only, and is at least zero; from that limit on the call raises
  OverflowError and produces no mapping.
\<close>

theorem recalc_data_formula:
  assumes "d \<in> set radio_model" and "0 \<le> k" and "1 \<le> p"
  shows "(k < float_int_limit \<and> p < float_int_limit \<longrightarrow>
           (\<exists>data. recalc_data d (Int_num k) p = Inr data \<and>
              (\<forall>mode \<in> set [''bicycle'', ''coach bus'', ''gasoline car'', ''electric car'',
                              ''motorbike'', ''rail CH''].
                 \<exists>r. dict_get data mode = Inr r \<and> spec_result mode d (Int_num k) p = Inr r \<and>
                     float_ge0 r))) \<and>
         (float_int_limit \<le> k \<or> float_int_limit \<le> p \<longrightarrow>
            recalc_data d (Int_num k) p = Inl OverflowError)"
proof -
  have "d = ''OWID'' \<or> d = ''PSI''" using assms(1) by (simp add: radio_model_def)
  then show ?thesis
    using recalc_data_formula_in_range [of d k p] recalc_data_overflow [of k p d] assms(2,3)
    by blast
qed

theorem recalc_data_formula_witness:
  "''PSI'' \<in> set radio_model \<and> (0::int) \<le> 200 \<and> (1::int) \<le> 1 \<and>
   200 < float_int_limit \<and> 1 < float_int_limit \<and>
   (\<exists>data. recalc_data ''PSI'' (Int_num 200) 1 = Inr data \<and>
      (\<exists>r. dict_get data ''bicycle'' = Inr r \<and>
         spec_result ''bicycle'' ''PSI'' (Int_num 200) 1 = Inr r \<and> float_ge0 r) \<and>
      (\<exists>r. dict_get data ''coach bus'' = Inr r \<and>
         spec_result ''coach bus'' ''PSI'' (Int_num 200) 1 = Inr r \<and> float_ge0 r) \<and>
      (\<exists>r. dict_get data ''gasoline car'' = Inr r \<and>
         spec_result ''gasoline car'' ''PSI'' (Int_num 200) 1 = Inr r \<and> float_ge0 r) \<and>
      (\<exists>r. dict_get data ''electric car'' = Inr r \<and>
         spec_result ''electric car'' ''PSI'' (Int_num 200) 1 = Inr r \<and> float_ge0 r) \<and>
      (\<exists>r. dict_get data ''motorbike'' = Inr r \<and>
         spec_result ''motorbike'' ''PSI'' (Int_num 200) 1 = Inr r \<and> float_ge0 r) \<and>
      (\<exists>r. dict_get data ''rail CH'' = Inr r \<and>
         spec_result ''rail CH'' ''PSI'' (Int_num 200) 1 = Inr r \<and> float_ge0 r))"
  using recalc_data_formula [of "''PSI''" 200 1]
  by (simp add: float_int_limit_def radio_model_def)

theorem recalc_data_formula_counterexample:
  "''PSI'' \<in> set radio_model \<and> (0::int) \<le> 2 ^ 1024 - 2 ^ 970 \<and> (1::int) \<le> 1 \<and>
   recalc_data ''PSI'' (Int_num (2 ^ 1024 - 2 ^ 970)) 1 = Inl OverflowError"
  by (simp add: recalc_data_overflow_distance float_int_limit_def radio_model_def)

text \<open>
  C2 (amended): for every dataset name, every distance that is a float or an int of
  magnitude below \<open>2^1024 - 2^970\<close> and every occupancy other than zero of magnitude
  below \<open>2^1024 - 2^970\<close>, the recalculator produces a mapping, and its keys are exactly
  the six modes bicycle, coach bus, gasoline car, electric car, motorbike and rail CH,
  each once.  On every other input it produces no mapping: it raises OverflowError when
  the distance or the occupancy does not convert to a float, ZeroDivisionError when the
  occupancy is zero and the distance converts.  No call produces a mapping with other keys.
\<close>

theorem recalc_data_keys:
  "(\<forall>data. recalc_data model distance p = Inr data \<longrightarrow>
      map fst data =
        [''bicycle'', ''coach bus'', ''gasoline car'', ''electric car'', ''motorbike'', ''rail CH'']) \<and>
   (number_converts distance \<and> \<bar>p\<bar> < float_int_limit \<and> p \<noteq> 0 \<longrightarrow>
      (\<exists>data. recalc_data model distance p = Inr data \<and>
         map fst data =
           [''bicycle'', ''coach bus'', ''gasoline car'', ''electric car'', ''motorbike'', ''rail CH''])) \<and>
   (\<not> number_converts distance \<or> float_int_limit \<le> \<bar>p\<bar> \<longrightarrow>
      recalc_data model distance p = Inl OverflowError) \<and>
   (number_converts distance \<and> p = 0 \<longrightarrow>
      recalc_data model distance p = Inl ZeroDivisionError)"
proof -
  have keys: "map fst data =
      [''bicycle'', ''coach bus'', ''gasoline car'', ''electric car'', ''motorbike'', ''rail CH'']"
    if "recalc_data model distance p = Inr data" for data
    using that by (rule recalc_data_keys_of)
  have "\<exists>data. recalc_data model distance p = Inr data \<and>
      map fst data =
        [''bicycle'', ''coach bus'', ''gasoline car'', ''electric car'', ''motorbike'', ''rail CH'']"
    if "number_converts distance" "\<bar>p\<bar> < float_int_limit" "p \<noteq> 0"
    using recalc_data_returns [OF that, of model] keys by blast
  moreover have "recalc_data model distance p = Inl OverflowError"
    if "\<not> number_converts distance \<or> float_int_limit \<le> \<bar>p\<bar>"
    using that recalc_data_not_converted [of distance model p]
      recalc_data_occupancy_overflow [of p model distance] by blast
  moreover have "recalc_data model distance p = Inl ZeroDivisionError"
    if "number_converts distance" "p = 0"
    using recalc_data_zero_occupancy [OF that(1), of model] that(2) by simp
  ultimately show ?thesis using keys by blast
qed

theorem recalc_data_keys_witness:
  "number_converts (Int_num 200) \<and> \<bar>1\<bar> < float_int_limit \<and> (1::int) \<noteq> 0 \<and>
   (\<exists>data. recalc_data ''PSI'' (Int_num 200) 1 = Inr data \<and>
      map fst data =
        [''bicycle'', ''coach bus'', ''gasoline car'', ''electric car'', ''motorbike'', ''rail CH'']) \<and>
   number_converts (Float_num (Finite False (5 / 2))) \<and> \<bar>- 3\<bar> < float_int_limit \<and> (- 3 :: int) \<noteq> 0 \<and>
   (\<exists>data. recalc_data ''OWID'' (Float_num (Finite False (5 / 2))) (- 3) = Inr data \<and>
      map fst data =
        [''bicycle'', ''coach bus'', ''gasoline car'', ''electric car'', ''motorbike'', ''rail CH'']) \<and>
   float_int_limit \<le> \<bar>2 ^ 1024\<bar> \<and>
   recalc_data ''PSI'' (Int_num 200) (2 ^ 1024) = Inl OverflowError \<and>
   recalc_data ''PSI'' (Int_num 200) 0 = Inl ZeroDivisionError"
  using recalc_data_keys [of "''PSI''" "Int_num 200" 1]
    recalc_data_keys [of "''OWID''" "Float_num (Finite False (5 / 2))" "- 3"]
    recalc_data_keys [of "''PSI''" "Int_num 200" "2 ^ 1024"]
    recalc_data_keys [of "''PSI''" "Int_num 200" 0]
  by (simp add: float_int_limit_def)

theorem recalc_data_keys_counterexample:
  "''OWID'' \<in> set radio_model \<and> (0::int) \<le> 2 ^ 1024 - 2 ^ 970 \<and> (1::int) \<le> 5 \<and>
   recalc_data ''OWID'' (Int_num (2 ^ 1024 - 2 ^ 970)) 5 = Inl OverflowError"
  by (simp add: recalc_data_overflow_distance float_int_limit_def radio_model_def)

text \<open>
  C3 (amended): for every dataset name, every distance \<open>k > 0\<close> that is a finite float or an
  int below \<open>2^1024 - 2^970\<close>, and occupancies \<open>1 \<le> p1 < p2 < 2^1024 - 2^970\<close>: the entries
  for bicycle, coach bus, motorbike and rail CH are the same at \<open>p1\<close> and \<open>p2\<close>; the
  entries for gasoline car and electric car at \<open>p2\<close> are never larger than at \<open>p1\<close>, and
  they are strictly smaller when \<open>p2 \<le> 2^52\<close> and the entry at \<open>p2\<close> is above the least
  normal double \<open>2^-1022\<close>, which it is for every int distance.
\<close>

theorem occupancy_decreases_cars:
  assumes "positive_distance distance" and "1 \<le> p1" and "p1 < p2" and "p2 < float_int_limit"
  shows "(\<forall>mode \<in> {''gasoline car'', ''electric car''}.
            \<exists>r1 r2. recalc_result d distance p1 mode = Inr r1 \<and>
                    recalc_result d distance p2 mode = Inr r2 \<and>
                    float_le r2 r1 \<and>
                    (p2 \<le> 2 ^ 52 \<and> (float_lt float_info_min r2 \<or> number_is_int distance) \<longrightarrow>
                       float_lt r2 r1)) \<and>
         (\<forall>mode \<in> {''bicycle'', ''coach bus'', ''motorbike'', ''rail CH''}.
            \<exists>r. recalc_result d distance p1 mode = Inr r \<and> recalc_result d distance p2 mode = Inr r)"
  using assms by (rule occupancy_in_range)

theorem occupancy_decreases_cars_witness:
  "positive_distance (Int_num 100) \<and> (1::int) \<le> 1 \<and> (1::int) < 4 \<and> 4 < float_int_limit \<and>
   (4::int) \<le> 2 ^ 52 \<and> number_is_int (Int_num 100) \<and>
   (\<exists>r1 r2. recalc_result ''PSI'' (Int_num 100) 1 ''gasoline car'' = Inr r1 \<and>
      recalc_result ''PSI'' (Int_num 100) 4 ''gasoline car'' = Inr r2 \<and>
      float_le r2 r1 \<and> float_lt r2 r1) \<and>
   (\<exists>r1 r2. recalc_result ''PSI'' (Int_num 100) 1 ''electric car'' = Inr r1 \<and>
      recalc_result ''PSI'' (Int_num 100) 4 ''electric car'' = Inr r2 \<and>
      float_le r2 r1 \<and> float_lt r2 r1) \<and>
   (\<exists>r. recalc_result ''PSI'' (Int_num 100) 1 ''bicycle'' = Inr r \<and>
      recalc_result ''PSI'' (Int_num 100) 4 ''bicycle'' = Inr r) \<and>
   (\<exists>r. recalc_result ''PSI'' (Int_num 100) 1 ''coach bus'' = Inr r \<and>
      recalc_result ''PSI'' (Int_num 100) 4 ''coach bus'' = Inr r) \<and>
   (\<exists>r. recalc_result ''PSI'' (Int_num 100) 1 ''motorbike'' = Inr r \<and>
      recalc_result ''PSI'' (Int_num 100) 4 ''motorbike'' = Inr r) \<and>
   (\<exists>r. recalc_result ''PSI'' (Int_num 100) 1 ''rail CH'' = Inr r \<and>
      recalc_result ''PSI'' (Int_num 100) 4 ''rail CH'' = Inr r) \<and>
   positive_distance (Float_num (Finite False (5 / 2))) \<and>
   recalc_result ''PSI'' (Float_num (Finite False (5 / 2))) 4 ''gasoline car'' =
     Inr (Finite False (1362338887279575 / 2 ^ 53)) \<and>
   float_lt float_info_min (Finite False (1362338887279575 / 2 ^ 53)) \<and>
   (\<exists>r1. recalc_result ''PSI'' (Float_num (Finite False (5 / 2))) 1 ''gasoline car'' = Inr r1 \<and>
      float_lt (Finite False (1362338887279575 / 2 ^ 53)) r1)"
proof -
  have shared: "recalc_result ''PSI'' (Float_num (Finite False (5 / 2))) 4 ''gasoline car'' =
      Inr (Finite False (1362338887279575 / 2 ^ 53))"
    by (simp add: result_eval cong: bind_err_weak_cong)
  have normal: "float_lt float_info_min (Finite False (1362338887279575 / 2 ^ 53))"
    by (simp add: float_info_min_def pow2_def)
  have "\<exists>r1. recalc_result ''PSI'' (Float_num (Finite False (5 / 2))) 1 ''gasoline car'' = Inr r1 \<and>
      float_lt (Finite False (1362338887279575 / 2 ^ 53)) r1"
    using occupancy_decreases_cars [of "Float_num (Finite False (5 / 2))" 1 4 "''PSI''"]
      shared normal
    by (simp add: float_int_limit_def) blast
  then show ?thesis
    using occupancy_decreases_cars [of "Int_num 100" 1 4 "''PSI''"] shared normal
    by (simp add: float_int_limit_def)
qed

theorem occupancy_decreases_cars_counterexample:
  "(0::int) < 291 \<and> (1::int) \<le> 4504303318472500 \<and> (4504303318472500::int) < 4504303318472501 \<and>
   recalc_result ''PSI'' (Int_num 291) 4504303318472500 ''electric car'' =
     Inr (Finite False (4504303201218059 / 2 ^ 99)) \<and>
   recalc_result ''PSI'' (Int_num 291) 4504303318472501 ''electric car'' =
     Inr (Finite False (4504303201218059 / 2 ^ 99)) \<and>
   \<not> float_lt (Finite False (4504303201218059 / 2 ^ 99)) (Finite False (4504303201218059 / 2 ^ 99))"
proof -
  have "recalc_result ''PSI'' (Int_num 291) 4504303318472500 ''electric car'' =
      Inr (Finite False (4504303201218059 / 2 ^ 99))"
    by (simp add: result_eval cong: bind_err_weak_cong)
  moreover have "recalc_result ''PSI'' (Int_num 291) 4504303318472501 ''electric car'' =
      Inr (Finite False (4504303201218059 / 2 ^ 99))"
    by (simp add: result_eval cong: bind_err_weak_cong)
  ultimately show ?thesis by simp
qed

text \<open>
  C4 (amended): the worked examples are met as floats, each result being the double that
  the stated decimal denotes (34.0, 11.0 and 2.75 are these numbers themselves), but for
  rail CH at 100 km under PSI: there the result is the next double above the one that 0.7
  denotes, written 0.7000000000000001, and it is shown as 0.7.
\<close>

theorem worked_examples:
  "recalc_result ''PSI'' (Int_num 200) 1 ''gasoline car'' = Inr (float_literal (484 / 10)) \<and>
   recalc_result ''OWID'' (Int_num 200) 1 ''gasoline car'' = Inr (Finite False 34) \<and>
   recalc_result ''PSI'' (Int_num 100) 1 ''bicycle'' = Inr (float_literal (6 / 10)) \<and>
   recalc_result ''PSI'' (Int_num 100) 1 ''electric car'' = Inr (Finite False 11) \<and>
   recalc_result ''PSI'' (Int_num 100) 4 ''electric car'' = Inr (Finite False (275 / 100)) \<and>
   float_literal (7 / 10) = Finite False (6305039478318694 / 2 ^ 53) \<and>
   recalc_result ''PSI'' (Int_num 100) 1 ''rail CH'' = Inr (Finite False (6305039478318695 / 2 ^ 53)) \<and>
   format_1f (Finite False (6305039478318695 / 2 ^ 53)) = ''0.7''"
proof -
  have "recalc_result ''PSI'' (Int_num 200) 1 ''gasoline car'' = Inr (float_literal (484 / 10))"
    by (simp add: result_eval float_literal_def cong: bind_err_weak_cong)
  moreover have "recalc_result ''OWID'' (Int_num 200) 1 ''gasoline car'' = Inr (Finite False 34)"
    by (simp add: result_eval cong: bind_err_weak_cong)
  moreover have "recalc_result ''PSI'' (Int_num 100) 1 ''bicycle'' = Inr (float_literal (6 / 10))"
    by (simp add: result_eval float_literal_def cong: bind_err_weak_cong)
  moreover have "recalc_result ''PSI'' (Int_num 100) 1 ''electric car'' = Inr (Finite False 11)"
    by (simp add: result_eval cong: bind_err_weak_cong)
  moreover have "recalc_result ''PSI'' (Int_num 100) 4 ''electric car'' = Inr (Finite False (275 / 100))"
    by (simp add: result_eval cong: bind_err_weak_cong)
  moreover have "float_literal (7 / 10) = Finite False (6305039478318694 / 2 ^ 53)"
    by (simp add: float_literal_def float_eval)
  moreover have "recalc_result ''PSI'' (Int_num 100) 1 ''rail CH'' = Inr (Finite False (6305039478318695 / 2 ^ 53))"
    by (simp add: result_eval cong: bind_err_weak_cong)
  moreover have "format_1f (Finite False (6305039478318695 / 2 ^ 53)) = ''0.7''"
    by (simp add: round_half_even_def Let_def floor_rat_numeral_div decimal_digit)
  ultimately show ?thesis by blast
qed

theorem worked_examples_counterexample:
  "recalc_result ''PSI'' (Int_num 100) 1 ''rail CH'' = Inr (Finite False (6305039478318695 / 2 ^ 53)) \<and>
   \<not> float_eq (Finite False (6305039478318695 / 2 ^ 53)) (float_literal (7 / 10)) \<and>
   (6305039478318695 / 2 ^ 53 :: rat) \<noteq> 7 / 10"
proof -
  have "recalc_result ''PSI'' (Int_num 100) 1 ''rail CH'' = Inr (Finite False (6305039478318695 / 2 ^ 53))"
    by (simp add: result_eval cong: bind_err_weak_cong)
  moreover have "\<not> float_eq (Finite False (6305039478318695 / 2 ^ 53)) (float_literal (7 / 10))"
    by (simp add: float_literal_def float_eval)
  ultimately show ?thesis by simp
qed

text \<open>
  C5: the table cell runs without error; the table has the eleven modes bicycle, coach
  bus, gasoline car, electric car, motorbike, tgv, rail UK, rail CH, tram, flight short and
  flight long; every entry is a list of two factors that are at least zero; the PSI factor of
  rail UK is exactly zero.
\<close>

theorem emission_table:
  "\<exists>tbl. kgco2e_per_km = Inr tbl \<and>
     map fst tbl =
       [''bicycle'', ''coach bus'', ''gasoline car'', ''electric car'', ''motorbike'', ''tgv'',
        ''rail UK'', ''rail CH'', ''tram'', ''flight short'', ''flight long''] \<and>
     list_all (\<lambda>v. length v = 2 \<and> list_all float_ge0 v) (map snd tbl) \<and>
     table_factor ''rail UK'' ''PSI'' = Inr (Finite False 0)"
  by (simp add: kgco2e_per_km_value table_factor_def dataset_index_def bind_err_simps
        dict_get_def list_get_def)

text \<open>
  C6: with at least one car passenger no division by zero is reached, for every dataset
  name and every distance, int or float; and on the values the two sliders deliver (a
  distance of 0 to 400 km, 1 to 5 car passengers) the call raises nothing at all.
\<close>

theorem no_zero_division:
  "1 \<le> p \<Longrightarrow>
     recalc_data model distance p \<noteq> Inl ZeroDivisionError \<and>
     recalc model distance p out \<noteq> Inl ZeroDivisionError \<and>
     (k \<in> set slider_distance_km \<and> p \<in> set slider_car_passengers \<longrightarrow>
        (\<exists>shown. recalc model (Int_num k) p out = Inr shown))"
  using recalc_data_no_zero_division [of p model distance] values_of_no_zero_division
    recalc_returns_on_controls [of k p model out]
  by (auto simp add: recalc_def bind_err_def Let_def split: sum.splits)

theorem no_zero_division_witness:
  "(1::int) \<le> 1 \<and> 200 \<in> set slider_distance_km \<and> 1 \<in> set slider_car_passengers \<and>
   recalc_data ''PSI'' (Int_num 200) 1 \<noteq> Inl ZeroDivisionError \<and>
   recalc ''PSI'' (Int_num 200) 1 [] \<noteq> Inl ZeroDivisionError \<and>
   (\<exists>shown. recalc ''PSI'' (Int_num 200) 1 [] = Inr shown)"
  using no_zero_division [of 1 "''PSI''" "Int_num 200" "[]" 200]
  by (simp add: slider_distance_km_def slider_car_passengers_def)

text \<open>
  C7 (amended): \<^verbatim>\<open>recalc\<close> checks no range and has no InvalidInput error.  For a distance that
  converts to a float: with zero car passengers the call raises ZeroDivisionError, before
  anything is shown; with a negative number of car passengers above \<open>- (2^1024 - 2^970)\<close>
  it returns a mapping, all of whose entries are finite floats.
\<close>

theorem nonpositive_passengers:
  assumes "\<bar>k\<bar> < float_int_limit"
  shows "recalc_data model (Int_num k) 0 = Inl ZeroDivisionError \<and>
         recalc model (Int_num k) 0 out = Inl ZeroDivisionError \<and>
         (p < 0 \<and> - float_int_limit < p \<longrightarrow>
            (\<exists>data. recalc_data model (Int_num k) p = Inr data \<and> list_all float_finite (map snd data)))"
  using recalc_data_zero_passengers [OF assms, of model] recalc_data_finite [OF assms, of p model]
  by (auto simp add: recalc_def bind_err_simps)

theorem nonpositive_passengers_witness:
  "\<bar>200\<bar> < float_int_limit \<and> (- 1 :: int) < 0 \<and> - float_int_limit < - 1 \<and>
   recalc_data ''PSI'' (Int_num 200) 0 = Inl ZeroDivisionError \<and>
   recalc ''PSI'' (Int_num 200) 0 [] = Inl ZeroDivisionError \<and>
   (\<exists>data. recalc_data ''PSI'' (Int_num 200) (- 1) = Inr data \<and> list_all float_finite (map snd data))"
  using nonpositive_passengers [of 200 "''PSI''" "[]" "- 1"] by (simp add: float_int_limit_def)

theorem nonpositive_passengers_counterexample:
  "recalc_data ''PSI'' (Int_num 200) 0 = Inl ZeroDivisionError \<and>
   recalc_data ''PSI'' (Int_num 200) (- 1) = Inr
     [(''bicycle'', Finite False (5404319552844595 / 4503599627370496)),
      (''coach bus'', Finite False (6417629469002957 / 562949953421312)),
      (''gasoline car'', Finite True (6811694436397875 / 140737488355328)),
      (''electric car'', Finite True 22),
      (''motorbike'', Finite False (4588042120383693 / 140737488355328)),
      (''rail CH'', Finite False (6305039478318695 / 4503599627370496))]"
proof -
  have "recalc_data ''PSI'' (Int_num 200) 0 = Inl ZeroDivisionError"
    by (simp add: recalc_eval float_eval cong: bind_err_weak_cong)
  moreover have "recalc_data ''PSI'' (Int_num 200) (- 1) = Inr
     [(''bicycle'', Finite False (5404319552844595 / 4503599627370496)),
      (''coach bus'', Finite False (6417629469002957 / 562949953421312)),
      (''gasoline car'', Finite True (6811694436397875 / 140737488355328)),
      (''electric car'', Finite True 22),
      (''motorbike'', Finite False (4588042120383693 / 140737488355328)),
      (''rail CH'', Finite False (6305039478318695 / 4503599627370496))]"
    by (simp add: recalc_eval float_eval cong: bind_err_weak_cong)
  ultimately show ?thesis by simp
qed

text \<open>
  C8: what a call leaves in the output area depends on the dataset name, the distance and
  the occupancy only, not on what the area showed before; so a second call with the same
  three inputs, made on the area the first call left, changes nothing.
\<close>

theorem recalc_deterministic:
  "recalc model distance p out1 = recalc model distance p out2 \<and>
   recalc model distance p (case recalc model distance p out1 of Inl e \<Rightarrow> out1 | Inr shown \<Rightarrow> shown) =
     recalc model distance p out1"
  by (simp add: recalc_def clear_output_def)




text \<open>
  C10 (amended): under OWID, for a distance \<open>k \<ge> 0\<close> and an occupancy \<open>p \<ge> 1\<close> that are
  both below \<open>2^1024 - 2^970\<close>, the entries for bicycle and rail CH are the float \<open>0.0\<close>, the
  same value a true zero has: the table holds \<open>0.0\<close> for them and nothing marks it as
  missing data.  From that limit on the call raises OverflowError and has no entries.
\<close>

theorem owid_no_data_is_zero:
  assumes "0 \<le> k" and "1 \<le> p"
  shows "table_factor ''bicycle'' ''OWID'' = Inr (Finite False 0) \<and>
         table_factor ''rail CH'' ''OWID'' = Inr (Finite False 0) \<and>
         (k < float_int_limit \<and> p < float_int_limit \<longrightarrow>
            recalc_result ''OWID'' (Int_num k) p ''bicycle'' = Inr (Finite False 0) \<and>
            recalc_result ''OWID'' (Int_num k) p ''rail CH'' = Inr (Finite False 0)) \<and>
         (float_int_limit \<le> k \<or> float_int_limit \<le> p \<longrightarrow>
            recalc_data ''OWID'' (Int_num k) p = Inl OverflowError)"
proof -
  have "recalc_result ''OWID'' (Int_num k) p ''bicycle'' = Inr (Finite False 0) \<and>
        recalc_result ''OWID'' (Int_num k) p ''rail CH'' = Inr (Finite False 0)"
    if r: "k < float_int_limit" "p < float_int_limit"
  proof -
    from assms r obtain fk fp where
      fk: "float_of_int k = Inr (Finite False fk)" and
      fp: "float_of_int p = Inr (Finite False fp)" and nz: "fp \<noteq> 0"
      using recalc_data_in_range [of k p] by blast
    obtain g where g: "float_truediv (double_of False (round_double (170 / 1000) * fk)) (Finite False fp) = Inr g"
      using float_truediv_double_of [OF nz] by blast
    obtain e where e: "float_truediv (double_of False (round_double (48 / 1000) * fk)) (Finite False fp) = Inr e"
      using float_truediv_double_of [OF nz] by blast
    show ?thesis
      using fk fp g e
      by (simp add: recalc_result_def recalc_data_OWID bind_err_simps dict_get_def double_of_zero)
  qed
  then show ?thesis
    using recalc_data_overflow [of k p "''OWID''"] assms by (simp add: table_factor_OWID)
qed

theorem owid_no_data_is_zero_witness:
  "(0::int) \<le> 100 \<and> (1::int) \<le> 4 \<and> 100 < float_int_limit \<and> 4 < float_int_limit \<and>
   recalc_result ''OWID'' (Int_num 100) 4 ''bicycle'' = Inr (Finite False 0) \<and>
   recalc_result ''OWID'' (Int_num 100) 4 ''rail CH'' = Inr (Finite False 0)"
  using owid_no_data_is_zero [of 100 4] by (simp add: float_int_limit_def)

theorem owid_no_data_is_zero_counterexample:
  "(0::int) \<le> 2 ^ 1024 \<and> (1::int) \<le> 1 \<and>
   recalc_result ''OWID'' (Int_num (2 ^ 1024)) 1 ''bicycle'' = Inl OverflowError \<and>
   recalc_result ''OWID'' (Int_num (2 ^ 1024)) 1 ''rail CH'' = Inl OverflowError"
  by (simp add: recalc_result_def recalc_data_overflow_distance float_int_limit_def bind_err_simps)

end
